theory Spec2Isabelle
  imports Main "HOL-Library.Log_Nat"
begin

section \<open>Text and JavaScript primitives\<close>

text \<open>
  Text is a list of characters. A JavaScript string is a sequence of UTF-16 code units;
  the model keeps the code units below 256, which is where every character the program
  itself inspects lives (dot, slash, backslash, underscore and white space).
\<close>

text \<open>
  A JavaScript number is an IEEE-754 double. The numbers that the splitter computes with
  (\<open>chunkSize\<close>, \<open>overlap\<close>, string positions) are modelled on the doubles whose value is
  an integer, together with the two infinities and NaN: \<open>Fin x\<close> is the double of value
  \<open>x\<close> (so \<open>x\<close> is an integer that a double can hold). Fractional sizes are outside the
  model. The sum or difference of two such doubles is the exact integer result rounded
  to the nearest double, ties to the even significand, and an infinity beyond the
  largest double.
\<close>

datatype number = Fin int | PosInf | NegInf | NaN

text \<open>
  Rounding an exact integer result to a double. An integer of magnitude up to \<open>2^53\<close> is
  a double. A larger one, of \<open>L\<close> bits (\<open>bitlen\<close> gives the number of bits), lies between
  doubles that are \<open>2^(L - 53)\<close> apart; a result of more than 1024 bits is beyond the
  largest double.
\<close>

definition round_double :: "int \<Rightarrow> number" where
  "round_double x =
     (if \<bar>x\<bar> \<le> 2 ^ 53 then Fin x
      else let ulp = 2 ^ nat (bitlen \<bar>x\<bar> - 53);
               q = \<bar>x\<bar> div ulp;
               r = \<bar>x\<bar> mod ulp;
               q' = (if ulp < 2 * r \<or> (2 * r = ulp \<and> odd q) then q + 1 else q)
           in if 1024 < bitlen (q' * ulp) then (if x < 0 then NegInf else PosInf)
              else Fin (sgn x * (q' * ulp)))"

fun js_add :: "number \<Rightarrow> number \<Rightarrow> number" where
  "js_add (Fin a) (Fin b) = round_double (a + b)"
| "js_add NaN _ = NaN"
| "js_add _ NaN = NaN"
| "js_add PosInf NegInf = NaN"
| "js_add NegInf PosInf = NaN"
| "js_add PosInf _ = PosInf"
| "js_add _ PosInf = PosInf"
| "js_add NegInf _ = NegInf"
| "js_add _ NegInf = NegInf"

fun js_neg :: "number \<Rightarrow> number" where
  "js_neg (Fin a) = Fin (- a)"
| "js_neg PosInf = NegInf"
| "js_neg NegInf = PosInf"
| "js_neg NaN = NaN"

definition js_sub :: "number \<Rightarrow> number \<Rightarrow> number" where
  "js_sub a b = js_add a (js_neg b)"

text \<open>The comparisons \<open><\<close> and \<open>>=\<close>: false whenever an operand is NaN.\<close>

fun js_lt :: "number \<Rightarrow> number \<Rightarrow> bool" where
  "js_lt (Fin a) (Fin b) = (a < b)"
| "js_lt NaN _ = False"
| "js_lt _ NaN = False"
| "js_lt PosInf _ = False"
| "js_lt _ NegInf = False"
| "js_lt _ PosInf = True"
| "js_lt NegInf _ = True"

definition js_ge :: "number \<Rightarrow> number \<Rightarrow> bool" where
  "js_ge a b = (a \<noteq> NaN \<and> b \<noteq> NaN \<and> \<not> js_lt a b)"

text \<open>\<open>Math.min\<close>: NaN when an operand is NaN.\<close>

definition js_min :: "number \<Rightarrow> number \<Rightarrow> number" where
  "js_min a b = (if a = NaN \<or> b = NaN then NaN else if js_lt a b then a else b)"

text \<open>
  \<open>String.prototype.slice(start, end)\<close>: each position is taken as an integer or an
  infinity (NaN as 0); a negative position counts from the end of the string, every
  position is clamped to the string, and an empty range gives the empty string.
\<close>

definition slice_position :: "nat \<Rightarrow> number \<Rightarrow> int" where
  "slice_position len p =
     (case p of
        NaN \<Rightarrow> 0
      | NegInf \<Rightarrow> 0
      | PosInf \<Rightarrow> int len
      | Fin x \<Rightarrow> if x < 0 then max (int len + x) 0 else min x (int len))"

definition js_slice :: "string \<Rightarrow> number \<Rightarrow> number \<Rightarrow> string" where
  "js_slice s start end =
     (let from = slice_position (length s) start;
          to = slice_position (length s) end
      in take (nat (to - from)) (drop (nat from) s))"

section \<open>TextChunker: the synchronous fixed-width splitter\<close>

text \<open>
  \<^verbatim>\<open>
  export function chunkTextSync(text, chunkSize = 1500, overlap = 200) {
    const chunks = [];
    let start = 0;
    while (start < text.length) {
      const end = Math.min(start + chunkSize, text.length);
      chunks.push(text.slice(start, end));
      start = end - overlap;
      if (start + overlap >= text.length) break;
    }
    return chunks;
  }
  \<close>
  The loop has no bound of its own, so it is a partial function: \<open>None\<close> is the run that
  never leaves the loop, \<open>Some chunks\<close> the run that returns \<open>chunks\<close>. The function has
  no failure branch: it never throws. (\<open>text.length\<close> is below \<open>2^53\<close> for every string.)
\<close>

partial_function (option) chunk_loop ::
  "string \<Rightarrow> number \<Rightarrow> number \<Rightarrow> number \<Rightarrow> string list \<Rightarrow> string list option" where
  "chunk_loop text chunkSize overlap start chunks =
     (if js_lt start (Fin (int (length text))) then
        (let end = js_min (js_add start chunkSize) (Fin (int (length text)));
             chunks' = chunks @ [js_slice text start end];
             start' = js_sub end overlap
         in if js_ge (js_add start' overlap) (Fin (int (length text))) then Some chunks'
            else chunk_loop text chunkSize overlap start' chunks')
      else Some chunks)"

declare chunk_loop.simps [code]

definition chunkTextSync :: "string \<Rightarrow> number \<Rightarrow> number \<Rightarrow> string list option" where
  "chunkTextSync text chunkSize overlap = chunk_loop text chunkSize overlap (Fin 0) []"

section \<open>Errors\<close>

text \<open>
  The messages of \<open>healthCheck\<close>:
  \<open>Ready m\<close> is \<open>Ollama ready with m\<close>;
  \<open>ModelNotFound m\<close> is \<open>Model 'm' not found. Run: ollama pull m\<close>;
  \<open>NotRunning e\<close> is \<open>Ollama not running: \<close> followed by the message of the error caught
  (\<open>None\<close> for the TypeError of a malformed reply, whose text the engine chooses).
\<close>

datatype health_message = Ready string | ModelNotFound string | NotRunning "string option"

text \<open>
  Every \<open>throw\<close> and every \<open>process.exit(1)\<close> of the program is a value of the type
  \<open>error\<close>; a function that can fail returns \<open>error + 'a\<close>, with \<open>Inl\<close> for the failure.
  A failed health check carries the health message, an embedding failure the message of
  the error thrown.
\<close>

datatype error =
    DirectoryNotFound
  | HealthCheckFailed health_message
  | MetadataFileNotFound
  | JsonSyntaxError
  | MetadataNotNonEmptyArray
  | TypeError
  | EmbeddingFailed string
  | IndexAddFailed
  | SplitterFailed string
  | DuplicateChunkId string
  | NoDocuments
  | IndexEmptyOrNotLoaded
  | IndexNotFound

section \<open>Directories and paths\<close>

text \<open>
  What \<open>fs.readdirSync(dir, { withFileTypes: true })\<close> shows of a directory: its entries
  in the order the call returns them. A file carries its name and content, a directory
  its name and entries; \<open>Other\<close> is an entry that is neither (\<open>isFile()\<close> and
  \<open>isDirectory()\<close> both false). A path is the list of names below the scanned root, so
  \<open>path.join(currentPath, entry.name)\<close> appends a name, \<open>path.basename\<close> is the last name and
  \<open>path.relative(root, p)\<close> joins the names with \<open>/\<close>.
\<close>

datatype fsentry = File string string | Dir string "fsentry list" | Other string

type_synonym path = "string list"

definition basename :: "path \<Rightarrow> string" where
  "basename p = (if p = [] then [] else last p)"

fun relative :: "path \<Rightarrow> string" where
  "relative [] = []"
| "relative [n] = n"
| "relative (n # ns) = n @ ''/'' @ relative ns"

definition starts_with_dot :: "string \<Rightarrow> bool" where
  "starts_with_dot n = (case n of [] \<Rightarrow> False | c # _ \<Rightarrow> c = CHR ''.'')"

text \<open>\<open>String.prototype.toLowerCase\<close> on the code units below 256.\<close>

definition to_lower_char :: "char \<Rightarrow> char" where
  "to_lower_char c =
     (let n = (of_char c :: nat)
      in if (65 \<le> n \<and> n \<le> 90) \<or> (192 \<le> n \<and> n \<le> 222 \<and> n \<noteq> 215)
         then char_of (n + 32) else c)"

definition toLowerCase :: "string \<Rightarrow> string" where
  "toLowerCase s = map to_lower_char s"

text \<open>
  Node's \<open>path.extname\<close> on a name without separators: the part from the last dot on;
  empty when there is no dot, when the only dot is the first character, and for \<open>..\<close>.
\<close>

definition extname :: "string \<Rightarrow> string" where
  "extname n =
     (let after = takeWhile (\<lambda>c. c \<noteq> CHR ''.'') (rev n)
      in if length after = length n then []
         else let startDot = length n - length after - 1
              in if startDot = 0 then []
                 else if n = ''..'' then []
                 else drop startDot n)"

text \<open>
  What a directory holds, read off the tree: \<open>has_file dir p content\<close> says that the
  file at path \<open>p\<close> below \<open>dir\<close> exists and has this content.
\<close>

fun has_file :: "fsentry list \<Rightarrow> path \<Rightarrow> string \<Rightarrow> bool"
and entry_has_file :: "fsentry \<Rightarrow> path \<Rightarrow> string \<Rightarrow> bool" where
  "has_file [] p content = False"
| "has_file (entry # others) p content =
     (entry_has_file entry p content \<or> has_file others p content)"
| "entry_has_file (File n x) p content = (p = [n] \<and> content = x)"
| "entry_has_file (Dir n sub) p content =
     (case p of [] \<Rightarrow> False | m # q \<Rightarrow> m = n \<and> has_file sub q content)"
| "entry_has_file (Other n) p content = False"

text \<open>A path is hidden when one of its names begins with a dot.\<close>

definition hidden :: "path \<Rightarrow> bool" where
  "hidden p = list_ex starts_with_dot p"

section \<open>DocumentChangeCache\<close>

text \<open>
  \<^verbatim>\<open>
  function getFiles(dirPath, options = {}) {
    const { extensions, recursive = false } = options;
    const files = [];
    function scan(currentPath) {
      const entries = fs.readdirSync(currentPath, { withFileTypes: true });
      for (const entry of entries) {
        if (entry.name.startsWith(".")) continue;
        const fullPath = path.join(currentPath, entry.name);
        if (entry.isDirectory() && recursive) {
          scan(fullPath);
        } else if (entry.isFile()) {
          if (extensions && extensions.length > 0) {
            const ext = path.extname(entry.name).toLowerCase();
            if (!extensions.includes(ext)) continue;
          }
          files.push(fullPath);
        }
      }
    }
    scan(dirPath);
    return files;
  }
  \<close>
  \<open>extensions\<close> is \<open>None\<close> when the option is not given. Each file found is returned with
  its content, which is what the callers read through the path.
\<close>

fun scan :: "string list option \<Rightarrow> bool \<Rightarrow> path \<Rightarrow> fsentry list \<Rightarrow> (path \<times> string) list"
and scan_entry :: "string list option \<Rightarrow> bool \<Rightarrow> path \<Rightarrow> fsentry \<Rightarrow> (path \<times> string) list" where
  "scan extensions recursive currentPath [] = []"
| "scan extensions recursive currentPath (entry # entries) =
     scan_entry extensions recursive currentPath entry
     @ scan extensions recursive currentPath entries"
| "scan_entry extensions recursive currentPath (Dir n sub) =
     (if starts_with_dot n then []
      else if recursive then scan extensions recursive (currentPath @ [n]) sub
      else [])"
| "scan_entry extensions recursive currentPath (File n content) =
     (if starts_with_dot n then []
      else (case extensions of
              None \<Rightarrow> [(currentPath @ [n], content)]
            | Some exts \<Rightarrow>
                if exts \<noteq> [] \<and> toLowerCase (extname n) \<notin> set exts then []
                else [(currentPath @ [n], content)]))"
| "scan_entry extensions recursive currentPath (Other n) = []"

definition docCache_getFiles ::
  "fsentry list \<Rightarrow> string list option \<Rightarrow> bool \<Rightarrow> (path \<times> string) list" where
  "docCache_getFiles dir extensions recursive = scan extensions recursive [] dir"

text \<open>
  The cache is a plain JavaScript object from basename to digest: its own properties, in
  insertion order. Reading \<open>cache[key]\<close> finds an own property, or else a property
  inherited from \<open>Object.prototype\<close> (a function or object, never a digest), or else
  \<open>undefined\<close>. Writing \<open>cache[key] = digest\<close> sets an own property, except for the key
  \<open>__proto__\<close>, whose setter ignores a string.
\<close>

type_synonym cache = "(string \<times> string) list"

datatype property = Undefined | Inherited | Own string

definition object_prototype_names :: "string list" where
  "object_prototype_names =
     [''constructor'', ''__defineGetter__'', ''__defineSetter__'', ''hasOwnProperty'',
      ''__lookupGetter__'', ''__lookupSetter__'', ''isPrototypeOf'',
      ''propertyIsEnumerable'', ''toString'', ''valueOf'', ''__proto__'',
      ''toLocaleString'']"

definition cache_get :: "cache \<Rightarrow> string \<Rightarrow> property" where
  "cache_get c k =
     (case map_of c k of
        Some v \<Rightarrow> Own v
      | None \<Rightarrow> if k \<in> set object_prototype_names then Inherited else Undefined)"

definition falsy :: "property \<Rightarrow> bool" where
  "falsy p = (p = Undefined \<or> p = Own [])"

definition cache_set :: "cache \<Rightarrow> string \<Rightarrow> string \<Rightarrow> cache" where
  "cache_set c k v =
     (if k = ''__proto__'' then c
      else if k \<in> fst ` set c
        then map (\<lambda>(k', v'). if k' = k then (k', v) else (k', v')) c
      else c @ [(k, v)])"

text \<open>
  \<^verbatim>\<open>
  export async function generateDocCache(dirPath, outputPath, options = {}) {
    const { extensions, recursive = false } = options;
    if (!fs.existsSync(dirPath)) throw new Error(`Directory not found: ${dirPath}`);
    const files = getFiles(dirPath, { extensions, recursive });
    const cache = {};
    for (const filePath of files) {
      const hash = await getFileHash(filePath);
      const key = path.basename(filePath);
      cache[key] = hash;
    }
    ... fs.writeFileSync(outputPath, JSON.stringify(cache, null, 2));
    return cache;
  }
  \<close>
  \<open>getFileHash\<close> (the MD5 digest of the content, in hexadecimal) is a parameter. A
  directory that does not exist is \<open>None\<close>.
\<close>

definition generateDocCache ::
  "(string \<Rightarrow> string) \<Rightarrow> fsentry list option \<Rightarrow> string list option \<Rightarrow> bool
     \<Rightarrow> error + cache" where
  "generateDocCache getFileHash dirPath extensions recursive =
     (case dirPath of
        None \<Rightarrow> Inl DirectoryNotFound
      | Some dir \<Rightarrow>
          Inr (fold (\<lambda>(filePath, content) cache.
                       cache_set cache (basename filePath) (getFileHash content))
                 (docCache_getFiles dir extensions recursive) []))"

text \<open>
  \<^verbatim>\<open>
  export async function detectChanges(dirPath, existingCache, options = {}) {
    const { extensions, recursive = false } = options;
    const files = getFiles(dirPath, { extensions, recursive });
    const result = { added: [], modified: [], removed: [], unchanged: [] };
    const currentFiles = new Set();
    for (const filePath of files) {
      const key = path.basename(filePath);
      currentFiles.add(key);
      const hash = await getFileHash(filePath);
      if (!existingCache[key]) {
        result.added.push(key);
      } else if (existingCache[key] !== hash) {
        result.modified.push(key);
      } else {
        result.unchanged.push(key);
      }
    }
    for (const key of Object.keys(existingCache)) {
      if (!currentFiles.has(key)) result.removed.push(key);
    }
    return result;
  }
  \<close>
\<close>

record changes =
  added :: "string list"
  modified :: "string list"
  removed :: "string list"
  unchanged :: "string list"

definition detect_file ::
  "(string \<Rightarrow> string) \<Rightarrow> cache \<Rightarrow> path \<times> string \<Rightarrow> changes \<times> string set
     \<Rightarrow> changes \<times> string set" where
  "detect_file getFileHash existingCache file st =
     (let key = basename (fst file);
          result = fst st;
          currentFiles = insert key (snd st);
          hash = getFileHash (snd file)
      in if falsy (cache_get existingCache key)
           then (result\<lparr>added := added result @ [key]\<rparr>, currentFiles)
         else if cache_get existingCache key \<noteq> Own hash
           then (result\<lparr>modified := modified result @ [key]\<rparr>, currentFiles)
         else (result\<lparr>unchanged := unchanged result @ [key]\<rparr>, currentFiles))"

definition detectChanges ::
  "(string \<Rightarrow> string) \<Rightarrow> fsentry list \<Rightarrow> cache \<Rightarrow> string list option \<Rightarrow> bool
     \<Rightarrow> changes" where
  "detectChanges getFileHash dir existingCache extensions recursive =
     (let files = docCache_getFiles dir extensions recursive;
          st = fold (detect_file getFileHash existingCache) files
                 (\<lparr>added = [], modified = [], removed = [], unchanged = []\<rparr>, {});
          result = fst st;
          currentFiles = snd st
      in result\<lparr>removed := filter (\<lambda>key. key \<notin> currentFiles) (map fst existingCache)\<rparr>)"

text \<open>
  The three tests of the loop of \<open>detectChanges\<close>, as predicates on a file: each file's
  basename goes to the list that its test selects.
\<close>

definition is_added :: "cache \<Rightarrow> path \<times> string \<Rightarrow> bool" where
  "is_added existingCache file = falsy (cache_get existingCache (basename (fst file)))"

definition is_modified :: "(string \<Rightarrow> string) \<Rightarrow> cache \<Rightarrow> path \<times> string \<Rightarrow> bool" where
  "is_modified getFileHash existingCache file =
     (\<not> is_added existingCache file
      \<and> cache_get existingCache (basename (fst file)) \<noteq> Own (getFileHash (snd file)))"

definition is_unchanged :: "(string \<Rightarrow> string) \<Rightarrow> cache \<Rightarrow> path \<times> string \<Rightarrow> bool" where
  "is_unchanged getFileHash existingCache file =
     (\<not> is_added existingCache file
      \<and> cache_get existingCache (basename (fst file)) = Own (getFileHash (snd file)))"


section \<open>JSON values and JavaScript objects\<close>

text \<open>
  A value read from a JSON file, or held in a property. \<open>JUndefined\<close> is what reading an
  absent property gives; it is never in a file. An object is the list of its own
  properties in insertion order (JavaScript lists integer-like keys first, which changes
  no lookup); the keys of an object that \<open>JSON.parse\<close> or an object literal makes are
  pairwise different.
\<close>

datatype jval =
    JUndefined
  | JNull
  | JBool bool
  | JNum int
  | JStr string
  | JArr "jval list"
  | JObj "(string \<times> jval) list"

type_synonym jobject = "(string \<times> jval) list"

definition obj_get :: "jobject \<Rightarrow> string \<Rightarrow> jval" where
  "obj_get obj k = (case map_of obj k of None \<Rightarrow> JUndefined | Some v \<Rightarrow> v)"

text \<open>Defining a property: an existing key keeps its place and takes the new value.\<close>

definition obj_set :: "jobject \<Rightarrow> string \<times> jval \<Rightarrow> jobject" where
  "obj_set obj kv =
     (if fst kv \<in> fst ` set obj
        then map (\<lambda>p. if fst p = fst kv then (fst p, snd kv) else p) obj
      else obj @ [kv])"

text \<open>
  An object literal \<open>{ k1: v1, ..., ...spread }\<close> defines its properties from left to
  right, the spread object's own properties last: a later definition of a key replaces
  the value of an earlier one.
\<close>

definition obj_literal :: "(string \<times> jval) list \<Rightarrow> jobject" where
  "obj_literal props = fold (\<lambda>kv obj. obj_set obj kv) props []"

definition truthy :: "jval \<Rightarrow> bool" where
  "truthy v =
     (case v of
        JUndefined \<Rightarrow> False
      | JNull \<Rightarrow> False
      | JBool b \<Rightarrow> b
      | JNum n \<Rightarrow> n \<noteq> 0
      | JStr s \<Rightarrow> s \<noteq> []
      | JArr _ \<Rightarrow> True
      | JObj _ \<Rightarrow> True)"

text \<open>
  Reading one of the properties \<open>doc\<close>, \<open>chunk_id\<close>, \<open>chunk\<close> of a value: \<open>null\<close> and
  \<open>undefined\<close> throw a TypeError, an object gives its own property, and a boolean,
  number, string or array has no property of these names.
\<close>

definition get_prop :: "jval \<Rightarrow> string \<Rightarrow> jval" where
  "get_prop v k = (case v of JObj obj \<Rightarrow> obj_get obj k | _ \<Rightarrow> JUndefined)"

definition read_prop :: "jval \<Rightarrow> string \<Rightarrow> error + jval" where
  "read_prop v k =
     (case v of
        JUndefined \<Rightarrow> Inl TypeError
      | JNull \<Rightarrow> Inl TypeError
      | _ \<Rightarrow> Inr (get_prop v k))"

text \<open>
  \<open>Object.entries\<close> of an object. (The program takes the entries of a metadata item only
  after reading a non-blank \<open>chunk\<close> from it, which only an object has.)
\<close>

definition entries :: "jval \<Rightarrow> (string \<times> jval) list" where
  "entries v = (case v of JObj obj \<Rightarrow> obj | _ \<Rightarrow> [])"

text \<open>
  \<open>String.prototype.trim\<close> removes white space and line terminators from both ends; below
  256 these are tab, line feed, vertical tab, form feed, carriage return, space and the
  no-break space.
\<close>

definition is_space :: "char \<Rightarrow> bool" where
  "is_space c = (c \<in> set [CHR 0x09, CHR 0x0A, CHR 0x0B, CHR 0x0C, CHR 0x0D, CHR 0x20, CHR 0xA0])"

definition trim :: "string \<Rightarrow> string" where
  "trim s = rev (dropWhile is_space (rev (dropWhile is_space s)))"

text \<open>\<open>String.prototype.includes\<close>: the argument occurs as a contiguous part.\<close>

fun str_includes :: "string \<Rightarrow> string \<Rightarrow> bool" where
  "str_includes [] sub = (sub = [])"
| "str_includes (c # cs) sub = (take (length sub) (c # cs) = sub \<or> str_includes cs sub)"

text \<open>The decimal digits of a number, as a template literal prints it.\<close>

fun show_nat :: "nat \<Rightarrow> string" where
  "show_nat n =
     (if n < 10 then [''0123456789'' ! n]
      else show_nat (n div 10) @ [''0123456789'' ! (n mod 10)])"

declare show_nat.simps [simp del]

section \<open>EmbeddingClient\<close>

text \<open>
  The reply to \<open>GET {baseUrl}/api/tags\<close>. \<open>RequestFailed msg\<close>: the request is rejected
  (connection refused, timeout, error status) with message \<open>msg\<close>. \<open>NoBody\<close>: a reply
  without \<open>data\<close>. \<open>Body models\<close>: \<open>response.data.models\<close>, \<open>None\<close> when it is missing (or
  otherwise falsy); each listed entry is \<open>Some name\<close> when it is an object with a string
  \<open>name\<close>, and \<open>None\<close> when reading \<open>m.name.includes\<close> throws.
\<close>

datatype tags_reply = RequestFailed string | NoBody | Body "string option list option"

record health =
  ok :: bool
  message :: health_message

text \<open>\<open>models.some((m) => m.name.includes(this.model))\<close>, left to right.\<close>

fun some_includes :: "string \<Rightarrow> string option list \<Rightarrow> error + bool" where
  "some_includes model [] = Inr False"
| "some_includes model (None # ms) = Inl TypeError"
| "some_includes model (Some name # ms) =
     (if str_includes name model then Inr True else some_includes model ms)"

text \<open>
  \<^verbatim>\<open>
  async healthCheck() {
    try {
      const response = await axios.get(`${this.baseUrl}/api/tags`, { timeout: 5000 });
      const models = response.data.models || [];
      const hasModel = models.some((m) => m.name.includes(this.model));
      if (!hasModel) {
        return { ok: false,
          message: `Model '${this.model}' not found. Run: ollama pull ${this.model}` };
      }
      return { ok: true, message: `Ollama ready with ${this.model}` };
    } catch (error) {
      return { ok: false, message: `Ollama not running: ${error.message}` };
    }
  }
  \<close>
\<close>

definition healthCheck :: "string \<Rightarrow> tags_reply \<Rightarrow> health" where
  "healthCheck model reply =
     (case reply of
        RequestFailed msg \<Rightarrow> \<lparr>ok = False, message = NotRunning (Some msg)\<rparr>
      | NoBody \<Rightarrow> \<lparr>ok = False, message = NotRunning None\<rparr>
      | Body listed \<Rightarrow>
          (let models = (case listed of None \<Rightarrow> [] | Some ms \<Rightarrow> ms)
           in case some_includes model models of
                Inl e \<Rightarrow> \<lparr>ok = False, message = NotRunning None\<rparr>
              | Inr hasModel \<Rightarrow>
                  if \<not> hasModel then \<lparr>ok = False, message = ModelNotFound model\<rparr>
                  else \<lparr>ok = True, message = Ready model\<rparr>))"



text \<open>
  The embedder, as the indexer uses it. Vectors are values of a type \<open>'v\<close>: the
  floating-point arithmetic of the embedding service and of \<open>normalize\<close> is not modelled.
  \<open>embed\<close> is the outcome of \<open>OllamaEmbedder.embed\<close> on a text (a vector, or the error it
  throws), \<open>normalize\<close> the function of that name, \<open>tags\<close> the reply that \<open>healthCheck\<close>
  receives.
\<close>

record 'v embedder =
  model :: string
  tags :: tags_reply
  embed :: "string \<Rightarrow> error + 'v"
  normalize :: "'v \<Rightarrow> 'v"

section \<open>VectorIndexStore\<close>

text \<open>
  The similarity engine (\<open>IndexFlatIP\<close> or \<open>IndexFlatL2\<close> of faiss-node) is a library
  outside the program. Its index is the list of the vectors added, the position of a
  vector being its ordinal, and \<open>ntotal()\<close> the length. \<open>accepts v\<close> says whether
  \<open>index.add\<close> takes the vector \<open>v\<close> (one vector of the index's dimension) rather than
  throwing; \<open>nearest vs q k\<close> is the reply of \<open>index.search(q, k)\<close> on the index \<open>vs\<close>: the
  labels paired with the distances, a label \<open>-1\<close> standing for no neighbour.
\<close>

record ('v, 's) engine =
  accepts :: "'v \<Rightarrow> bool"
  nearest :: "'v list \<Rightarrow> 'v \<Rightarrow> nat \<Rightarrow> (int \<times> 's) list"

text \<open>
  The indexer's mutable fields: \<open>this.index\<close> (\<open>None\<close> is \<open>null\<close>) and \<open>this.metadata\<close>.
\<close>

record 'v indexer =
  index :: "'v list option"
  metadata :: "jval list"

text \<open>What \<open>metadataPath\<close> holds: no file, text that is not JSON, or a JSON value.\<close>

datatype metadata_file = NoFile | Unparsable | Parsed jval

text \<open>
  The state of the loop of \<open>build\<close>: the index, the metadata pushed so far, and the calls
  \<open>onProgress(current, total, item)\<close> made so far, as the pairs \<open>(current, total)\<close>.
\<close>

record 'v build_state =
  vectors_added :: "'v list"
  entries_pushed :: "jval list"
  progress :: "(nat \<times> nat) list"

text \<open>\<open>const chunk = item.chunk || ""\<close>, and the string that \<open>chunk.trim()\<close> is called on.\<close>

definition item_chunk :: "jval \<Rightarrow> error + string" where
  "item_chunk item =
     (case read_prop item ''chunk'' of
        Inl e \<Rightarrow> Inl e
      | Inr v \<Rightarrow>
          (case (if truthy v then v else JStr []) of
             JStr s \<Rightarrow> Inr s
           | _ \<Rightarrow> Inl TypeError))"

text \<open>
  \<^verbatim>\<open>
  this.metadata.push({
    id: this.metadata.length,
    doc: item.doc,
    chunk_id: item.chunk_id,
    chunk: chunk,
    ...Object.fromEntries(
      Object.entries(item).filter(([k]) => !["doc", "chunk_id", "chunk"].includes(k))),
  });
  \<close>
\<close>

definition make_entry :: "nat \<Rightarrow> jval \<Rightarrow> string \<Rightarrow> jval" where
  "make_entry n item chunk =
     JObj (obj_literal
       ([(''id'', JNum (int n)),
         (''doc'', get_prop item ''doc''),
         (''chunk_id'', get_prop item ''chunk_id''),
         (''chunk'', JStr chunk)]
        @ obj_literal
            (filter (\<lambda>kv. fst kv \<notin> set [''doc'', ''chunk_id'', ''chunk'']) (entries item))))"

text \<open>
  \<^verbatim>\<open>
  for (let i = 0; i < metadata.length; i++) {
    const item = metadata[i];
    const chunk = item.chunk || "";
    if (!chunk.trim()) continue;
    let embedding = await this.embedder.embed(chunk);
    embedding = this.embedder.normalize(embedding);
    this.index.add(Array.from(embedding));
    this.metadata.push({ ... });
    if (onProgress) onProgress(i + 1, metadata.length, item);
  }
  \<close>
  \<open>build_loop e g totalItems i items st\<close> runs the loop on the items from position \<open>i\<close> on.
\<close>

fun build_loop ::
  "'v embedder \<Rightarrow> ('v, 's) engine \<Rightarrow> nat \<Rightarrow> nat \<Rightarrow> jval list \<Rightarrow> 'v build_state
     \<Rightarrow> error + 'v build_state" where
  "build_loop e g totalItems i [] st = Inr st"
| "build_loop e g totalItems i (item # rest) st =
     (case item_chunk item of
        Inl err \<Rightarrow> Inl err
      | Inr chunk \<Rightarrow>
          if trim chunk = [] then build_loop e g totalItems (i + 1) rest st
          else (case embed e chunk of
                  Inl err \<Rightarrow> Inl err
                | Inr embedding \<Rightarrow>
                    if \<not> accepts g (normalize e embedding) then Inl IndexAddFailed
                    else build_loop e g totalItems (i + 1) rest
                           \<lparr>vectors_added = vectors_added st @ [normalize e embedding],
                            entries_pushed = entries_pushed st
                              @ [make_entry (length (entries_pushed st)) item chunk],
                            progress = progress st @ [(i + 1, totalItems)]\<rparr>))"

text \<open>
  \<open>FaissIndexer.build(metadataPath, outputPath, onProgress)\<close>: the health check, the
  loading of the metadata file, the loop, and \<open>_save\<close>. The result holds the indexer after
  the build (whose index and metadata \<open>_save\<close> writes out), the calls made to
  \<open>onProgress\<close>, and the returned \<open>vectors\<close> (the index's \<open>ntotal()\<close>); the elapsed time is
  not modelled.
\<close>

record 'v build_result =
  built :: "'v indexer"
  progress_calls :: "(nat \<times> nat) list"
  vectors :: nat

definition FaissIndexer_build ::
  "'v embedder \<Rightarrow> ('v, 's) engine \<Rightarrow> metadata_file \<Rightarrow> error + 'v build_result" where
  "FaissIndexer_build e g file =
     (let h = healthCheck (model e) (tags e)
      in if \<not> ok h then Inl (HealthCheckFailed (message h))
         else case file of
           NoFile \<Rightarrow> Inl MetadataFileNotFound
         | Unparsable \<Rightarrow> Inl JsonSyntaxError
         | Parsed (JArr []) \<Rightarrow> Inl MetadataNotNonEmptyArray
         | Parsed (JArr (item # items)) \<Rightarrow>
             (case build_loop e g (length (item # items)) 0 (item # items)
                     \<lparr>vectors_added = [], entries_pushed = [], progress = []\<rparr> of
                Inl err \<Rightarrow> Inl err
              | Inr st \<Rightarrow>
                  Inr \<lparr>built = \<lparr>index = Some (vectors_added st),
                                 metadata = entries_pushed st\<rparr>,
                       progress_calls = progress st,
                       vectors = length (vectors_added st)\<rparr>)
         | Parsed _ \<Rightarrow> Inl MetadataNotNonEmptyArray)"

text \<open>
  \<open>load(indexPath, metadataPath)\<close>: the index file holds the vectors written by \<open>_save\<close>
  (\<open>None\<close>: no such file); the metadata file, when given and present, holds a JSON array.
\<close>

definition FaissIndexer_load ::
  "'v indexer \<Rightarrow> 'v list option \<Rightarrow> jval list option \<Rightarrow> error + 'v indexer" where
  "FaissIndexer_load ix indexFile metadataFile =
     (case indexFile of
        None \<Rightarrow> Inl IndexNotFound
      | Some vs \<Rightarrow>
          Inr \<lparr>index = Some vs,
               metadata = (case metadataFile of None \<Rightarrow> metadata ix | Some md \<Rightarrow> md)\<rparr>)"

text \<open>
  \<^verbatim>\<open>
  async search(query, k = 5) {
    if (!this.index || this.index.ntotal() === 0)
      throw new Error("Index is empty or not loaded");
    let queryVec = await this.embedder.embed(query);
    queryVec = this.embedder.normalize(queryVec);
    const result = this.index.search(Array.from(queryVec), Math.min(k, this.index.ntotal()));
    const results = [];
    for (let i = 0; i < result.labels.length; i++) {
      const idx = result.labels[i];
      if (idx === -1) continue;
      const meta = this.metadata[idx] || { id: idx };
      results.push({ id: idx, score: result.distances[i],
        doc: meta.doc, chunk_id: meta.chunk_id, chunk: meta.chunk });
    }
    return results;
  }
  \<close>
\<close>

record 's hit =
  hit_id :: int
  score :: 's
  doc :: jval
  chunk_id :: jval
  chunk :: jval

text \<open>\<open>this.metadata[idx]\<close>: \<open>undefined\<close> outside the array.\<close>

definition element :: "jval list \<Rightarrow> int \<Rightarrow> jval" where
  "element xs idx = (if 0 \<le> idx \<and> nat idx < length xs then xs ! nat idx else JUndefined)"

definition to_hit :: "jval list \<Rightarrow> int \<times> 's \<Rightarrow> 's hit" where
  "to_hit md r =
     (let idx = fst r;
          meta = (if truthy (element md idx) then element md idx
                  else JObj [(''id'', JNum idx)])
      in \<lparr>hit_id = idx, score = snd r,
          doc = get_prop meta ''doc'', chunk_id = get_prop meta ''chunk_id'',
          chunk = get_prop meta ''chunk''\<rparr>)"

definition FaissIndexer_search ::
  "'v embedder \<Rightarrow> ('v, 's) engine \<Rightarrow> 'v indexer \<Rightarrow> string \<Rightarrow> nat \<Rightarrow> error + 's hit list" where
  "FaissIndexer_search e g ix query k =
     (case index ix of
        None \<Rightarrow> Inl IndexEmptyOrNotLoaded
      | Some vs \<Rightarrow>
          if length vs = 0 then Inl IndexEmptyOrNotLoaded
          else (case embed e query of
                  Inl err \<Rightarrow> Inl err
                | Inr queryVec \<Rightarrow>
                    Inr (map (to_hit (metadata ix))
                          (filter (\<lambda>r. fst r \<noteq> - 1)
                            (nearest g vs (normalize e queryVec) (min k (length vs)))))))"

text \<open>
  The chunk text of a metadata item, read off the item: the string held in \<open>chunk\<close>, and
  the empty text when \<open>chunk\<close> is absent or not a string. An item is blank when its chunk
  text is empty or consists of white space only.
\<close>

definition chunk_text :: "jval \<Rightarrow> string" where
  "chunk_text item = (case get_prop item ''chunk'' of JStr s \<Rightarrow> s | _ \<Rightarrow> [])"

definition blank_item :: "jval \<Rightarrow> bool" where
  "blank_item item = list_all is_space (chunk_text item)"

text \<open>Whether an object given as a list of properties has an own property \<open>id\<close>.\<close>

definition has_own_id :: "jval \<Rightarrow> bool" where
  "has_own_id item = (''id'' \<in> fst ` set (entries item))"

text \<open>
  The two statements \<open>embed\<close> then \<open>normalize\<close> of the loop, as one step on a chunk text;
  and, in closed form, the entries and the progress calls that a run of the loop over
  \<open>items\<close> makes when no step fails: \<open>entries_from n items\<close> are the entries pushed when
  \<open>n\<close> entries are there already, \<open>progress_from totalItems i items\<close> the calls made when
  \<open>items\<close> start at position \<open>i\<close>.
\<close>

definition normalized_embedding :: "'v embedder \<Rightarrow> string \<Rightarrow> error + 'v" where
  "normalized_embedding e s =
     (case embed e s of Inl err \<Rightarrow> Inl err | Inr v \<Rightarrow> Inr (normalize e v))"

fun entries_from :: "nat \<Rightarrow> jval list \<Rightarrow> jval list" where
  "entries_from n [] = []"
| "entries_from n (item # rest) =
     (if blank_item item then entries_from n rest
      else make_entry n item (chunk_text item) # entries_from (n + 1) rest)"

fun progress_from :: "nat \<Rightarrow> nat \<Rightarrow> jval list \<Rightarrow> (nat \<times> nat) list" where
  "progress_from totalItems i [] = []"
| "progress_from totalItems i (item # rest) =
     (if blank_item item then progress_from totalItems (i + 1) rest
      else (i + 1, totalItems) # progress_from totalItems (i + 1) rest)"

section \<open>IndexBuilder\<close>

text \<open>
  \<^verbatim>\<open>
  function getFiles(dir, extensions, recursive) {
    const files = [];
    const items = fs.readdirSync(dir, { withFileTypes: true });
    for (const item of items) {
      const fullPath = path.join(dir, item.name);
      if (item.isDirectory() && recursive) {
        files.push(...getFiles(fullPath, extensions, recursive));
      } else if (item.isFile()) {
        const ext = path.extname(item.name).toLowerCase();
        if (extensions.includes(ext)) files.push(fullPath);
      }
    }
    return files;
  }
  \<close>
  The library entry point and the command line carry the same helper.
\<close>

fun getFiles :: "string list \<Rightarrow> bool \<Rightarrow> path \<Rightarrow> fsentry list \<Rightarrow> (path \<times> string) list"
and getFiles_item :: "string list \<Rightarrow> bool \<Rightarrow> path \<Rightarrow> fsentry \<Rightarrow> (path \<times> string) list" where
  "getFiles extensions recursive dir [] = []"
| "getFiles extensions recursive dir (item # items) =
     getFiles_item extensions recursive dir item @ getFiles extensions recursive dir items"
| "getFiles_item extensions recursive dir (Dir n sub) =
     (if recursive then getFiles extensions recursive (dir @ [n]) sub else [])"
| "getFiles_item extensions recursive dir (File n content) =
     (if toLowerCase (extname n) \<in> set extensions then [(dir @ [n], content)] else [])"
| "getFiles_item extensions recursive dir (Other n) = []"

text \<open>
  The chunk identifier:
  \<^verbatim>\<open>
  const baseId = relativePath.replace(/[\/\\]/g, "_").replace(/\.[^/.]+$/, "");
  const chunkId = `${baseId}_${i}`;
  \<close>
  The second pattern matches from a dot to the end of the string when at least one
  character follows the dot and none of the following characters is a dot or a slash:
  that dot is the last one.
\<close>

definition replace_separators :: "string \<Rightarrow> string" where
  "replace_separators s = map (\<lambda>c. if c = CHR ''/'' \<or> c = CHR 0x5C then CHR ''_'' else c) s"

definition strip_extension :: "string \<Rightarrow> string" where
  "strip_extension s =
     (let after = takeWhile (\<lambda>c. c \<noteq> CHR ''.'') (rev s)
      in if length after < length s \<and> after \<noteq> [] \<and> CHR ''/'' \<notin> set after
         then take (length s - length after - 1) s
         else s)"

definition chunk_id_of :: "string \<Rightarrow> nat \<Rightarrow> string" where
  "chunk_id_of relativePath i =
     strip_extension (replace_separators relativePath) @ ''_'' @ show_nat i"

definition metadata_item :: "string \<Rightarrow> string \<Rightarrow> string \<Rightarrow> jval" where
  "metadata_item relativePath chunkText chunkId =
     JObj [(''doc'', JStr relativePath), (''chunk'', JStr chunkText),
           (''chunk_id'', JStr chunkId)]"

text \<open>
  The library's \<open>build(inputDir, outputDir, options)\<close>:
  \<^verbatim>\<open>
  const metadata = [];
  const files = getFiles(inputDir, extensions, recursive);
  for (const filePath of files) {
    const relativePath = path.relative(inputDir, filePath);
    const content = fs.readFileSync(filePath, "utf-8");
    const chunks = await splitTextByFileType(content, filePath,
      { chunkSize, chunkOverlap, type: splitter });
    for (let i = 0; i < chunks.length; i++) {
      const baseId = ...;
      metadata.push({ doc: relativePath, chunk: chunks[i], chunk_id: `${baseId}_${i}` });
    }
  }
  fs.writeFileSync(metadataPath, JSON.stringify(metadata, null, 2));
  const indexer = new FaissIndexer({ indexType: "IP", model, baseUrl });
  return indexer.build(metadataPath, indexPath, onProgress);
  \<close>
  The splitter (the text-splitting library behind \<open>splitTextByFileType\<close>, with the
  options of the call) is a parameter: the chunks of a file's content, or the error it
  throws.
\<close>

type_synonym splitter = "path \<Rightarrow> string \<Rightarrow> error + string list"

fun push_chunks :: "string \<Rightarrow> string list \<Rightarrow> nat \<Rightarrow> jval list \<Rightarrow> jval list" where
  "push_chunks relativePath [] i items = items"
| "push_chunks relativePath (c # chunks) i items =
     push_chunks relativePath chunks (i + 1)
       (items @ [metadata_item relativePath c (chunk_id_of relativePath i)])"

fun build_metadata :: "splitter \<Rightarrow> (path \<times> string) list \<Rightarrow> jval list \<Rightarrow> error + jval list" where
  "build_metadata split [] items = Inr items"
| "build_metadata split (file # files) items =
     (case split (fst file) (snd file) of
        Inl err \<Rightarrow> Inl err
      | Inr chunks \<Rightarrow>
          build_metadata split files (push_chunks (relative (fst file)) chunks 0 items))"

definition build ::
  "'v embedder \<Rightarrow> ('v, 's) engine \<Rightarrow> splitter \<Rightarrow> fsentry list \<Rightarrow> string list \<Rightarrow> bool
     \<Rightarrow> error + 'v build_result" where
  "build e g split inputDir extensions recursive =
     (case build_metadata split (getFiles extensions recursive [] inputDir) [] of
        Inl err \<Rightarrow> Inl err
      | Inr items \<Rightarrow> FaissIndexer_build e g (Parsed (JArr items)))"

text \<open>
  The command line's \<open>runBuild\<close> writes the change cache, then assembles the metadata
  with a set of the identifiers seen:
  \<^verbatim>\<open>
  const cache = await generateDocCache(options.inputDir, docCachePath,
    { extensions: options.extensions, recursive: options.recursive });
  const metadata = [];
  const chunkIds = new Set();
  const files = getFiles(options.inputDir, options.extensions, options.recursive);
  for (const filePath of files) {
    const relativePath = path.relative(options.inputDir, filePath);
    const content = readFileContent(filePath);
    if (!content) continue;
    const chunks = await splitTextByFileType(content, filePath, { ... });
    for (let i = 0; i < chunks.length; i++) {
      // Use relative path for chunk_id to avoid conflicts
      const baseId = ...;
      const chunkId = `${baseId}_${i}`;
      if (chunkIds.has(chunkId)) {
        console.error(`Duplicate chunk_id: ${chunkId}`);
        process.exit(1);
      }
      metadata.push({ doc: relativePath, chunk: chunks[i], chunk_id: chunkId });
      chunkIds.add(chunkId);
    }
  }
  fs.writeFileSync(metadataPath, JSON.stringify(metadata, null, 2));
  if (metadata.length === 0) { console.error("No documents found to index"); process.exit(1); }
  ... const result = await indexer.build(metadataPath, indexPath, ...);
  \<close>
\<close>

definition supportedExtensions :: "string list" where
  "supportedExtensions =
     [''.txt'', ''.md'', ''.json'', ''.js'', ''.ts'', ''.py'', ''.yaml'', ''.yml'', ''.jsx'',
      ''.tsx'', ''.css'', ''.html'', ''.xml'', ''.sql'', ''.sh'', ''.go'', ''.rs'', ''.java'',
      ''.c'', ''.cpp'', ''.h'', ''.hpp'']"

definition readFileContent :: "path \<Rightarrow> string \<Rightarrow> string option" where
  "readFileContent filePath content =
     (if toLowerCase (extname (basename filePath)) \<in> set supportedExtensions
      then Some content else None)"

fun push_chunks_checked ::
  "string \<Rightarrow> string list \<Rightarrow> nat \<Rightarrow> jval list \<times> string set
     \<Rightarrow> error + jval list \<times> string set" where
  "push_chunks_checked relativePath [] i st = Inr st"
| "push_chunks_checked relativePath (c # chunks) i st =
     (let chunkId = chunk_id_of relativePath i
      in if chunkId \<in> snd st then Inl (DuplicateChunkId chunkId)
         else push_chunks_checked relativePath chunks (i + 1)
                (fst st @ [metadata_item relativePath c chunkId], insert chunkId (snd st)))"

fun runBuild_metadata ::
  "splitter \<Rightarrow> (path \<times> string) list \<Rightarrow> jval list \<times> string set
     \<Rightarrow> error + jval list \<times> string set" where
  "runBuild_metadata split [] st = Inr st"
| "runBuild_metadata split (file # files) st =
     (case readFileContent (fst file) (snd file) of
        None \<Rightarrow> runBuild_metadata split files st
      | Some content \<Rightarrow>
          if content = [] then runBuild_metadata split files st
          else (case split (fst file) content of
                  Inl err \<Rightarrow> Inl err
                | Inr chunks \<Rightarrow>
                    (case push_chunks_checked (relative (fst file)) chunks 0 st of
                       Inl err \<Rightarrow> Inl err
                     | Inr st' \<Rightarrow> runBuild_metadata split files st')))"


section \<open>Concrete collaborators for evaluation\<close>

text \<open>
  Concrete stand-ins for the external services, used to run the model on explicit
  inputs. Vectors are lists of integers. \<open>flat_ip d\<close> is an exhaustive inner-product
  engine of dimension \<open>d\<close>: it scores every stored vector against the query and returns
  the \<open>k\<close> best, highest score first, labelled by ordinal. \<open>toy_embedder\<close> answers the
  health check with a listing that holds its model and embeds a text as the one-element
  vector of its length. \<open>one_chunk\<close> is a splitter that returns the whole content as a
  single chunk.
\<close>

definition dot :: "int list \<Rightarrow> int list \<Rightarrow> int" where
  "dot a b = sum_list (map (\<lambda>p. fst p * snd p) (zip a b))"

definition flat_nearest :: "int list list \<Rightarrow> int list \<Rightarrow> nat \<Rightarrow> (int \<times> int) list" where
  "flat_nearest vs q k =
     take k (sort_key (\<lambda>r. - snd r) (zip (map int [0..<length vs]) (map (dot q) vs)))"

definition flat_ip :: "nat \<Rightarrow> (int list, int) engine" where
  "flat_ip d = \<lparr>accepts = (\<lambda>v. length v = d), nearest = flat_nearest\<rparr>"

definition toy_embedder :: "int list embedder" where
  "toy_embedder =
     \<lparr>model = ''nomic-embed-text'',
      tags = Body (Some [Some ''nomic-embed-text:latest'']),
      embed = (\<lambda>t. Inr [int (length t)]),
      normalize = (\<lambda>v. v)\<rparr>"

definition one_chunk :: splitter where
  "one_chunk filePath content = Inr [content]"

text \<open>
  The relation between the two accumulators of the command line's assembly: the set
  \<open>chunkIds\<close> holds exactly the identifiers of the items pushed, which are pairwise
  different.
\<close>

definition ids_tracked :: "jval list \<times> string set \<Rightarrow> bool" where
  "ids_tracked st =
     (distinct (map (\<lambda>item. get_prop item ''chunk_id'') (fst st))
      \<and> (\<lambda>item. get_prop item ''chunk_id'') ` set (fst st) = JStr ` snd st)"

section \<open>Properties of the synchronous splitter\<close>

lemma round_double_exact: "\<bar>x\<bar> \<le> 2 ^ 53 \<Longrightarrow> round_double x = Fin x"
  by (simp add: round_double_def)

text \<open>
  Where every value of the loop stays an integer of magnitude at most \<open>2^53\<close> the
  arithmetic is exact. Then, with \<open>overlap < chunkSize\<close>, every pass through the loop
  that does not leave it moves \<open>start\<close> forward by \<open>chunkSize - overlap\<close>, so the distance
  to the end of the text shrinks.
\<close>

lemma chunk_loop_returns:
  assumes "overlap < chunkSize"
    and "\<bar>chunkSize\<bar> \<le> 2 ^ 51" and "\<bar>overlap\<bar> \<le> 2 ^ 51"
    and "int (length text) \<le> 2 ^ 51"
    and "0 \<le> start" and "start \<le> 2 ^ 52"
  shows "\<exists>r. chunk_loop text (Fin chunkSize) (Fin overlap) (Fin start) chunks = Some r"
  using assms(5,6)
proof (induction "nat (int (length text) - start)" arbitrary: start chunks rule: less_induct)
  case less
  let ?len = "int (length text)"
  show ?case
  proof (cases "start < ?len")
    case False
    then show ?thesis by (subst chunk_loop.simps) simp
  next
    case True
    have r1: "round_double (start + chunkSize) = Fin (start + chunkSize)"
      using assms(2,4) less.prems True by (intro round_double_exact) (simp add: abs_le_iff)
    show ?thesis
    proof (cases "?len \<le> start + chunkSize")
      case True
      have r2: "round_double (?len - overlap) = Fin (?len - overlap)"
        using assms(3,4) by (intro round_double_exact) (simp add: abs_le_iff)
      have r3: "round_double ?len = Fin ?len"
        using assms(4) by (intro round_double_exact) simp
      from \<open>start < ?len\<close> True show ?thesis
        by (subst chunk_loop.simps)
          (simp add: Let_def js_min_def js_ge_def js_sub_def r1 r2 r3)
    next
      case False
      have r4: "round_double (start + chunkSize - overlap) = Fin (start + chunkSize - overlap)"
        using assms(2,3,4) less.prems True False
        by (intro round_double_exact) (simp add: abs_le_iff)
      have smaller: "nat (?len - (start + chunkSize - overlap)) < nat (?len - start)"
        using assms(1) True by linarith
      have lo: "0 \<le> start + chunkSize - overlap" using assms(1) less.prems by linarith
      have hi: "start + chunkSize - overlap \<le> 2 ^ 52"
        using False assms(3,4) by (simp add: abs_le_iff)
      from less.hyps[OF smaller lo hi]
      obtain r where "chunk_loop text (Fin chunkSize) (Fin overlap)
          (Fin (start + chunkSize - overlap))
          (chunks @ [js_slice text (Fin start) (Fin (start + chunkSize))]) = Some r" by blast
      with True False show ?thesis
        by (subst chunk_loop.simps)
          (simp add: Let_def js_min_def js_ge_def js_sub_def r1 r4)
    qed
  qed
qed

text \<open>
  With the overlap equal to the chunk size and a text longer than one chunk, \<open>start\<close>
  comes back to 0 on every pass: no run from there returns.
\<close>

lemma chunk_loop_stuck:
  assumes "chunk_loop text chunkSize overlap start chunks = Some r"
  shows "\<not> (\<exists>c. chunkSize = Fin c \<and> overlap = Fin c \<and> start = Fin 0
            \<and> 0 < c \<and> c < int (length text) \<and> c \<le> 2 ^ 52)"
proof (rule chunk_loop.raw_induct[where P = "\<lambda>text chunkSize overlap start chunks r.
    \<not> (\<exists>c. chunkSize = Fin c \<and> overlap = Fin c \<and> start = Fin 0
            \<and> 0 < c \<and> c < int (length text) \<and> c \<le> 2 ^ 52)",
    OF _ assms])
  fix f t chunkSize overlap start chunks r
  assume IH: "\<And>t chunkSize overlap start chunks r.
      f t chunkSize overlap start chunks = Some r \<Longrightarrow>
      \<not> (\<exists>c. chunkSize = Fin c \<and> overlap = Fin c \<and> start = Fin 0
            \<and> 0 < c \<and> c < int (length t) \<and> c \<le> 2 ^ 52)"
    and step: "(if js_lt start (Fin (int (length t)))
      then let end = js_min (js_add start chunkSize) (Fin (int (length t)));
               chunks' = chunks @ [js_slice t start end];
               start' = js_sub end overlap
           in if js_ge (js_add start' overlap) (Fin (int (length t))) then Some chunks'
              else f t chunkSize overlap start' chunks'
      else Some chunks) = Some r"
  show "\<not> (\<exists>c. chunkSize = Fin c \<and> overlap = Fin c \<and> start = Fin 0
            \<and> 0 < c \<and> c < int (length t) \<and> c \<le> 2 ^ 52)"
  proof
    assume "\<exists>c. chunkSize = Fin c \<and> overlap = Fin c \<and> start = Fin 0
            \<and> 0 < c \<and> c < int (length t) \<and> c \<le> 2 ^ 52"
    then obtain c where c: "chunkSize = Fin c" "overlap = Fin c" "start = Fin 0"
      "0 < c" "c < int (length t)" "c \<le> 2 ^ 52" by blast
    have rc: "round_double c = Fin c" using c(4,6) by (intro round_double_exact) simp
    have r0: "round_double 0 = Fin 0" by (intro round_double_exact) simp
    have ne: "t \<noteq> []" using c(4,5) by auto
    from step c ne have "f t (Fin c) (Fin c) (Fin 0)
        (chunks @ [js_slice t (Fin 0) (Fin c)]) = Some r"
      by (simp add: Let_def js_min_def js_ge_def js_sub_def rc r0)
    from IH[OF this] c show False by blast
  qed
qed

text \<open>
  Beyond \<open>2^53\<close> the arithmetic rounds. With overlap \<open>2^60\<close>, chunk size \<open>2^60 + 256\<close> and a
  text of 20 characters, \<open>20 - 2^60\<close> rounds to \<open>- 2^60\<close>, so \<open>start + overlap\<close> is 0 on
  every pass and the loop is never left.
\<close>

lemma large_sizes_rounding:
  "round_double 1152921504606847232 = Fin 1152921504606847232"
  "round_double (- 1152921504606846956) = Fin (- 1152921504606846976)"
  by code_simp+

lemma chunk_loop_large_sizes_stuck:
  assumes "chunk_loop text chunkSize overlap start chunks = Some r"
  shows "\<not> (length text = 20 \<and> chunkSize = Fin (2 ^ 60 + 256) \<and> overlap = Fin (2 ^ 60)
            \<and> (start = Fin 0 \<or> start = Fin (- (2 ^ 60))))"
proof (rule chunk_loop.raw_induct[where P = "\<lambda>text chunkSize overlap start chunks r.
    \<not> (length text = 20 \<and> chunkSize = Fin (2 ^ 60 + 256) \<and> overlap = Fin (2 ^ 60)
            \<and> (start = Fin 0 \<or> start = Fin (- (2 ^ 60))))",
    OF _ assms])
  fix f t chunkSize overlap start chunks r
  assume IH: "\<And>t chunkSize overlap start chunks r.
      f t chunkSize overlap start chunks = Some r \<Longrightarrow>
      \<not> (length t = 20 \<and> chunkSize = Fin (2 ^ 60 + 256) \<and> overlap = Fin (2 ^ 60)
            \<and> (start = Fin 0 \<or> start = Fin (- (2 ^ 60))))"
    and step: "(if js_lt start (Fin (int (length t)))
      then let end = js_min (js_add start chunkSize) (Fin (int (length t)));
               chunks' = chunks @ [js_slice t start end];
               start' = js_sub end overlap
           in if js_ge (js_add start' overlap) (Fin (int (length t))) then Some chunks'
              else f t chunkSize overlap start' chunks'
      else Some chunks) = Some r"
  show "\<not> (length t = 20 \<and> chunkSize = Fin (2 ^ 60 + 256) \<and> overlap = Fin (2 ^ 60)
            \<and> (start = Fin 0 \<or> start = Fin (- (2 ^ 60))))"
  proof
    assume a: "length t = 20 \<and> chunkSize = Fin (2 ^ 60 + 256) \<and> overlap = Fin (2 ^ 60)
            \<and> (start = Fin 0 \<or> start = Fin (- (2 ^ 60)))"
    then have "f t (Fin (2 ^ 60 + 256)) (Fin (2 ^ 60)) (Fin (- (2 ^ 60)))
        (chunks @ [js_slice t start (Fin 20)]) = Some r"
      using step
      by (auto simp: Let_def large_sizes_rounding round_double_exact js_min_def js_ge_def
          js_sub_def)
    from IH[OF this] a show False by simp
  qed
qed

text \<open>
  Claim C9 (as stated: for every configuration with overlap strictly less than the
  chunk size, chunking terminates). With overlap \<open>2^60\<close> and chunk size \<open>2^60 + 256\<close>, the
  overlap is less than the chunk size and \<open>chunkTextSync\<close> never returns on a text of 20
  characters.
\<close>

theorem chunkTextSync_large_sizes_diverge:
  "(2 ^ 60 :: int) < 2 ^ 60 + 256
   \<and> chunkTextSync ''0123456789ABCDEFGHIJ'' (Fin (2 ^ 60 + 256)) (Fin (2 ^ 60)) = None"
proof
  show "(2 ^ 60 :: int) < 2 ^ 60 + 256" by simp
  show "chunkTextSync ''0123456789ABCDEFGHIJ'' (Fin (2 ^ 60 + 256)) (Fin (2 ^ 60)) = None"
  proof (cases "chunkTextSync ''0123456789ABCDEFGHIJ'' (Fin (2 ^ 60 + 256)) (Fin (2 ^ 60))")
    case (Some r)
    then show ?thesis
      using chunk_loop_large_sizes_stuck [of "''0123456789ABCDEFGHIJ''" "Fin (2 ^ 60 + 256)"
          "Fin (2 ^ 60)" "Fin 0" "[]" r]
      by (simp add: chunkTextSync_def)
  qed simp
qed

text \<open>
  Claim C9, amended. For every input text of at most \<open>2^51\<close> characters and every
  configuration of integer sizes of magnitude at most \<open>2^51\<close> (where the loop's
  arithmetic is exact) whose overlap is strictly less than the chunk size,
  \<open>chunkTextSync\<close> terminates and returns a (finite, ordered) list of chunks.
\<close>

theorem chunkTextSync_terminates:
  assumes "overlap < chunkSize"
    and "\<bar>chunkSize\<bar> \<le> 2 ^ 51" and "\<bar>overlap\<bar> \<le> 2 ^ 51"
    and "int (length text) \<le> 2 ^ 51"
  shows "\<exists>chunks. chunkTextSync text (Fin chunkSize) (Fin overlap) = Some chunks"
  unfolding chunkTextSync_def using chunk_loop_returns[OF assms, of 0] by simp

theorem chunkTextSync_terminates_witness:
  "(3::int) < 10 \<and> \<bar>10::int\<bar> \<le> 2 ^ 51 \<and> \<bar>3::int\<bar> \<le> 2 ^ 51
   \<and> int (length ''0123456789ABCDEFGHIJ'') \<le> 2 ^ 51
   \<and> chunkTextSync ''0123456789ABCDEFGHIJ'' (Fin 10) (Fin 3)
     = Some [''0123456789'', ''789ABCDEFG'', ''EFGHIJ'']"
proof -
  have h: "(3::int) < 10" "\<bar>10::int\<bar> \<le> 2 ^ 51" "\<bar>3::int\<bar> \<le> 2 ^ 51"
    "int (length ''0123456789ABCDEFGHIJ'') \<le> 2 ^ 51" by simp_all
  have "\<exists>chunks. chunkTextSync ''0123456789ABCDEFGHIJ'' (Fin 10) (Fin 3) = Some chunks"
    using chunkTextSync_terminates [OF h] .
  moreover have "chunkTextSync ''0123456789ABCDEFGHIJ'' (Fin 10) (Fin 3)
     = Some [''0123456789'', ''789ABCDEFG'', ''EFGHIJ'']"
    by code_simp
  ultimately show ?thesis using h by simp
qed

text \<open>
  Claim C6 (as stated: an overlap greater than or equal to the chunk size makes every
  splitter entry point fail with an invalid-configuration error). \<open>chunkTextSync\<close> has no
  such check. With overlap equal to the chunk size, a text that fits in one chunk is
  returned as a single chunk, and a text longer than one chunk keeps the loop running
  forever.
\<close>

theorem chunkTextSync_overlap_not_rejected:
  "chunkTextSync ''Hello'' (Fin 10) (Fin 10) = Some [''Hello'']
   \<and> chunkTextSync ''0123456789ABCDEFGHIJ'' (Fin 10) (Fin 10) = None"
proof
  show "chunkTextSync ''Hello'' (Fin 10) (Fin 10) = Some [''Hello'']"
    by code_simp
  show "chunkTextSync ''0123456789ABCDEFGHIJ'' (Fin 10) (Fin 10) = None"
  proof (cases "chunkTextSync ''0123456789ABCDEFGHIJ'' (Fin 10) (Fin 10)")
    case (Some r)
    then show ?thesis
      using chunk_loop_stuck [of "''0123456789ABCDEFGHIJ''" "Fin 10" "Fin 10" "Fin 0" "[]" r]
      by (simp add: chunkTextSync_def)
  qed simp
qed

section \<open>Properties of the change cache\<close>

text \<open>Every path that the cache's enumeration returns lies below the scanned directory
  and has no name that begins with a dot.\<close>

lemma scan_no_hidden:
  "pc \<in> set (scan extensions recursive currentPath dir) \<Longrightarrow>
     \<exists>q. fst pc = currentPath @ q \<and> q \<noteq> [] \<and> (\<forall>n \<in> set q. \<not> starts_with_dot n)"
  "pc \<in> set (scan_entry extensions recursive currentPath entry) \<Longrightarrow>
     \<exists>q. fst pc = currentPath @ q \<and> q \<noteq> [] \<and> (\<forall>n \<in> set q. \<not> starts_with_dot n)"
proof (induction extensions recursive currentPath dir and extensions recursive currentPath entry
    arbitrary: pc and pc rule: scan_scan_entry.induct)
  case (1 extensions recursive currentPath)
  then show ?case by simp
next
  case (2 extensions recursive currentPath entry entries)
  from 2(3) have "pc \<in> set (scan_entry extensions recursive currentPath entry)
      \<or> pc \<in> set (scan extensions recursive currentPath entries)" by simp
  then show ?case using 2(1) 2(2) by blast
next
  case (3 extensions recursive currentPath n sub)
  show ?case
  proof (cases "starts_with_dot n \<or> \<not> recursive")
    case True
    with 3(2) show ?thesis by (auto split: if_splits)
  next
    case False
    with 3(2) have "pc \<in> set (scan extensions recursive (currentPath @ [n]) sub)" by simp
    with 3(1) False obtain q where
      q: "fst pc = (currentPath @ [n]) @ q" "\<forall>m \<in> set q. \<not> starts_with_dot m" by blast
    with False have "fst pc = currentPath @ (n # q) \<and> n # q \<noteq> []
        \<and> (\<forall>m \<in> set (n # q). \<not> starts_with_dot m)" by simp
    then show ?thesis by blast
  qed
next
  case (4 extensions recursive currentPath n content)
  then have "fst pc = currentPath @ [n] \<and> \<not> starts_with_dot n"
    by (auto split: if_splits option.splits)
  then have "fst pc = currentPath @ [n] \<and> [n] \<noteq> [] \<and> (\<forall>m \<in> set [n]. \<not> starts_with_dot m)"
    by simp
  then show ?case by blast
next
  case (5 extensions recursive currentPath n)
  then show ?case by simp
qed

lemma docCache_getFiles_no_hidden:
  assumes "pc \<in> set (docCache_getFiles dir extensions recursive)"
  shows "fst pc \<noteq> [] \<and> (\<forall>n \<in> set (fst pc). \<not> starts_with_dot n)"
  using scan_no_hidden(1)[OF assms[unfolded docCache_getFiles_def]] by auto

lemma docCache_getFiles_basename:
  assumes "pc \<in> set (docCache_getFiles dir extensions recursive)"
  shows "\<not> starts_with_dot (basename (fst pc))"
  using docCache_getFiles_no_hidden[OF assms] by (simp add: basename_def)

lemma cache_set_keys: "fst ` set (cache_set c k v) \<subseteq> insert k (fst ` set c)"
  by (auto simp: cache_set_def split: if_splits)

lemma fold_cache_set_keys:
  "fst ` set (fold (\<lambda>(filePath, content) cache.
        cache_set cache (basename filePath) (h content)) files c)
   \<subseteq> fst ` set c \<union> (\<lambda>pc. basename (fst pc)) ` set files"
proof (induction files arbitrary: c)
  case Nil
  then show ?case by simp
next
  case (Cons f files)
  obtain p x where f: "f = (p, x)" by (cases f)
  have "fst ` set (fold (\<lambda>(filePath, content) cache.
        cache_set cache (basename filePath) (h content)) files (cache_set c (basename p) (h x)))
    \<subseteq> fst ` set (cache_set c (basename p) (h x)) \<union> (\<lambda>pc. basename (fst pc)) ` set files"
    by (rule Cons.IH)
  also have "\<dots> \<subseteq> insert (basename p) (fst ` set c) \<union> (\<lambda>pc. basename (fst pc)) ` set files"
    using cache_set_keys[of c "basename p" "h x"] by blast
  finally show ?case using f by auto
qed

lemma generateDocCache_no_hidden_keys:
  assumes "generateDocCache h (Some dir) extensions recursive = Inr cache"
  shows "\<forall>k \<in> fst ` set cache. \<not> starts_with_dot k"
proof
  fix k
  assume k: "k \<in> fst ` set cache"
  let ?files = "docCache_getFiles dir extensions recursive"
  from assms have "cache = fold (\<lambda>(filePath, content) cache.
      cache_set cache (basename filePath) (h content)) ?files []"
    by (simp add: generateDocCache_def)
  with k fold_cache_set_keys[of h ?files "[]"]
  obtain pc where "pc \<in> set ?files" "k = basename (fst pc)" by auto
  then show "\<not> starts_with_dot k" using docCache_getFiles_basename by blast
qed

text \<open>The loop of \<open>detectChanges\<close> in closed form; \<open>currentFiles\<close> collects the
  basenames.\<close>

lemma detect_file_step:
  "detect_file h c f (r, cur) =
     (if is_added c f
        then (r\<lparr>added := added r @ [basename (fst f)]\<rparr>, insert (basename (fst f)) cur)
      else if is_modified h c f
        then (r\<lparr>modified := modified r @ [basename (fst f)]\<rparr>, insert (basename (fst f)) cur)
      else (r\<lparr>unchanged := unchanged r @ [basename (fst f)]\<rparr>, insert (basename (fst f)) cur))"
  by (simp add: detect_file_def Let_def is_added_def is_modified_def)

lemma is_unchanged_iff:
  "is_unchanged h c f \<longleftrightarrow> \<not> is_added c f \<and> \<not> is_modified h c f"
  by (auto simp: is_unchanged_def is_modified_def)

lemma fold_detect_file:
  "fold (detect_file h c) files (r, cur) =
     (r\<lparr>added := added r @ map (\<lambda>f. basename (fst f)) (filter (is_added c) files),
        modified := modified r @ map (\<lambda>f. basename (fst f)) (filter (is_modified h c) files),
        unchanged := unchanged r @ map (\<lambda>f. basename (fst f)) (filter (is_unchanged h c) files)\<rparr>,
      cur \<union> (\<lambda>f. basename (fst f)) ` set files)"
proof (induction files arbitrary: r cur)
  case Nil
  then show ?case by simp
next
  case (Cons f files)
  consider "is_added c f" | "\<not> is_added c f" "is_modified h c f"
    | "\<not> is_added c f" "\<not> is_modified h c f" by blast
  then show ?case
  proof cases
    case 1
    then have "\<not> is_modified h c f" "\<not> is_unchanged h c f"
      by (simp_all add: is_modified_def is_unchanged_def)
    with 1 show ?thesis by (simp add: detect_file_step Cons.IH)
  next
    case 2
    then have "\<not> is_unchanged h c f" by (simp add: is_unchanged_iff)
    with 2 show ?thesis by (simp add: detect_file_step Cons.IH)
  next
    case 3
    then have "is_unchanged h c f" by (simp add: is_unchanged_iff)
    with 3 show ?thesis by (simp add: detect_file_step Cons.IH)
  qed
qed

lemma detectChanges_closed_form:
  "detectChanges h dir c extensions recursive =
     (let files = docCache_getFiles dir extensions recursive
      in \<lparr>added = map (\<lambda>f. basename (fst f)) (filter (is_added c) files),
          modified = map (\<lambda>f. basename (fst f)) (filter (is_modified h c) files),
          removed = filter (\<lambda>key. key \<notin> (\<lambda>f. basename (fst f)) ` set files) (map fst c),
          unchanged = map (\<lambda>f. basename (fst f)) (filter (is_unchanged h c) files)\<rparr>)"
  by (simp add: detectChanges_def Let_def fold_detect_file)

text \<open>
  When the files found have pairwise different basenames, the four lists are pairwise
  disjoint and together hold exactly the current basenames and the keys of the previous
  cache.
\<close>

lemma detectChanges_sets:
  fixes h :: "string \<Rightarrow> string" and c :: cache and dir :: "fsentry list"
    and extensions :: "string list option" and recursive :: bool
  defines "r \<equiv> detectChanges h dir c extensions recursive"
  defines "files \<equiv> docCache_getFiles dir extensions recursive"
  shows "set (added r) = (\<lambda>f. basename (fst f)) ` {f \<in> set files. is_added c f}"
    and "set (modified r) = (\<lambda>f. basename (fst f)) ` {f \<in> set files. is_modified h c f}"
    and "set (unchanged r) = (\<lambda>f. basename (fst f)) ` {f \<in> set files. is_unchanged h c f}"
    and "set (removed r) = fst ` set c - (\<lambda>f. basename (fst f)) ` set files"
  unfolding r_def files_def detectChanges_closed_form Let_def by auto

lemma detectChanges_partition_distinct_basenames:
  fixes h :: "string \<Rightarrow> string" and c :: cache and dir :: "fsentry list"
    and extensions :: "string list option" and recursive :: bool
  assumes d: "distinct (map (\<lambda>f. basename (fst f)) (docCache_getFiles dir extensions recursive))"
  defines "r \<equiv> detectChanges h dir c extensions recursive"
  shows "set (added r) \<union> set (modified r) \<union> set (unchanged r) \<union> set (removed r)
           = (\<lambda>f. basename (fst f)) ` set (docCache_getFiles dir extensions recursive)
             \<union> fst ` set c"
    and "set (added r) \<inter> set (modified r) = {}"
    and "set (added r) \<inter> set (unchanged r) = {}"
    and "set (added r) \<inter> set (removed r) = {}"
    and "set (modified r) \<inter> set (unchanged r) = {}"
    and "set (modified r) \<inter> set (removed r) = {}"
    and "set (unchanged r) \<inter> set (removed r) = {}"
proof -
  let ?files = "docCache_getFiles dir extensions recursive"
  let ?b = "\<lambda>f. basename (fst f)"
  note s = detectChanges_sets[of h dir c extensions recursive, folded r_def]
  have inj: "inj_on ?b (set ?files)"
    using d by (simp add: distinct_map)
  have same: "\<And>f g. f \<in> set ?files \<Longrightarrow> g \<in> set ?files \<Longrightarrow> ?b f = ?b g \<Longrightarrow> f = g"
    using inj by (rule inj_onD)
  have cover: "set ?files = {f \<in> set ?files. is_added c f}
      \<union> {f \<in> set ?files. is_modified h c f} \<union> {f \<in> set ?files. is_unchanged h c f}"
    using is_unchanged_iff[of h c] by blast
  have "?b ` set ?files = ?b ` {f \<in> set ?files. is_added c f}
      \<union> ?b ` {f \<in> set ?files. is_modified h c f}
      \<union> ?b ` {f \<in> set ?files. is_unchanged h c f}"
    by (subst cover) (simp only: image_Un)
  then show "set (added r) \<union> set (modified r) \<union> set (unchanged r) \<union> set (removed r)
           = ?b ` set ?files \<union> fst ` set c"
    unfolding s by blast
  show "set (added r) \<inter> set (modified r) = {}"
  proof (rule ccontr)
    assume "set (added r) \<inter> set (modified r) \<noteq> {}"
    then obtain f g where "f \<in> set ?files" "is_added c f" "g \<in> set ?files"
        "is_modified h c g" "?b f = ?b g"
      unfolding s by auto
    then show False by (simp add: is_modified_def is_added_def)
  qed
  show "set (added r) \<inter> set (unchanged r) = {}"
  proof (rule ccontr)
    assume "set (added r) \<inter> set (unchanged r) \<noteq> {}"
    then obtain f g where "f \<in> set ?files" "is_added c f" "g \<in> set ?files"
        "is_unchanged h c g" "?b f = ?b g"
      unfolding s by auto
    then show False by (simp add: is_unchanged_def is_added_def)
  qed
  show "set (modified r) \<inter> set (unchanged r) = {}"
  proof (rule ccontr)
    assume "set (modified r) \<inter> set (unchanged r) \<noteq> {}"
    then obtain f g where fg: "f \<in> set ?files" "is_modified h c f" "g \<in> set ?files"
        "is_unchanged h c g" "?b f = ?b g"
      unfolding s by auto
    from same[OF fg(1) fg(3) fg(5)] fg(2) fg(4) show False
      by (simp add: is_unchanged_iff)
  qed
  show "set (added r) \<inter> set (removed r) = {}"
    unfolding s by blast
  show "set (modified r) \<inter> set (removed r) = {}"
    unfolding s by blast
  show "set (unchanged r) \<inter> set (removed r) = {}"
    unfolding s by blast
qed

text \<open>
  Claim C4 (as stated: the four sets are pairwise disjoint also when two files in
  different subdirectories share a basename under a recursive scan). The directory holds
  \<open>a/x.txt\<close> with content \<open>A\<close> and \<open>b/x.txt\<close> with content \<open>B\<close>; the previous cache maps
  \<open>x.txt\<close> to the digest of \<open>A\<close> (the digest function here is the identity). The basename
  \<open>x.txt\<close> is reported both as unchanged and as modified.
\<close>

theorem detectChanges_basename_collision:
  "detectChanges (\<lambda>content. content)
      [Dir ''a'' [File ''x.txt'' ''A''], Dir ''b'' [File ''x.txt'' ''B'']]
      [(''x.txt'', ''A'')] None True
     = \<lparr>added = [], modified = [''x.txt''], removed = [], unchanged = [''x.txt'']\<rparr>"
  by code_simp

section \<open>Properties of the index builder's enumeration and metadata\<close>

lemma getFiles_top_level:
  "File n content \<in> set dir \<Longrightarrow> toLowerCase (extname n) \<in> set extensions \<Longrightarrow>
     (cur @ [n], content) \<in> set (getFiles extensions recursive cur dir)"
  by (induction dir) auto



text \<open>
  The command line's assembly keeps the identifiers pairwise different: the set
  \<open>chunkIds\<close> holds exactly the identifiers of the items pushed, and a repeated
  identifier stops the run.
\<close>

lemma metadata_item_chunk_id [simp]:
  "get_prop (metadata_item rel c cid) ''chunk_id'' = JStr cid"
  by (simp add: metadata_item_def get_prop_def obj_get_def)

lemma push_chunks_checked_tracked:
  "push_chunks_checked rel chunks i st = Inr st' \<Longrightarrow> ids_tracked st \<Longrightarrow> ids_tracked st'"
proof (induction chunks arbitrary: i st)
  case Nil
  then show ?case by simp
next
  case (Cons c chunks)
  let ?cid = "chunk_id_of rel i"
  from Cons.prems(1) have fresh: "?cid \<notin> snd st"
    and rest: "push_chunks_checked rel chunks (i + 1)
        (fst st @ [metadata_item rel c ?cid], insert ?cid (snd st)) = Inr st'"
    by (auto simp: Let_def split: if_splits)
  from fresh Cons.prems(2)
  have "ids_tracked (fst st @ [metadata_item rel c ?cid], insert ?cid (snd st))"
    by (auto simp: ids_tracked_def)
  with Cons.IH[OF rest] show ?case .
qed

lemma runBuild_metadata_tracked:
  "runBuild_metadata split files st = Inr st' \<Longrightarrow> ids_tracked st \<Longrightarrow> ids_tracked st'"
proof (induction files arbitrary: st)
  case Nil
  then show ?case by simp
next
  case (Cons f files)
  show ?case
  proof (cases "readFileContent (fst f) (snd f)")
    case None
    with Cons show ?thesis by simp
  next
    case (Some content)
    show ?thesis
    proof (cases "content = []")
      case True
      with Some Cons show ?thesis by simp
    next
      case False
      with Some Cons.prems(1) obtain chunks st1 where
        "push_chunks_checked (relative (fst f)) chunks 0 st = Inr st1"
        "runBuild_metadata split files st1 = Inr st'"
        by (auto split: sum.splits)
      with Cons.IH Cons.prems(2) push_chunks_checked_tracked show ?thesis by blast
    qed
  qed
qed

lemma runBuild_metadata_distinct_ids:
  assumes "runBuild_metadata split files ([], {}) = Inr st"
  shows "distinct (map (\<lambda>item. get_prop item ''chunk_id'') (fst st))"
  using runBuild_metadata_tracked[OF assms] by (simp add: ids_tracked_def)

text \<open>
  Claim C5 (as stated: every entry point that assembles the metadata sequence fails
  fast on a repeated chunk identifier). The directory holds \<open>x.md\<close> and \<open>x.txt\<close>, each
  giving one chunk; both get the identifier \<open>x_0\<close>. The library's \<open>build\<close> assembles the
  two items, hands them to the index build and returns two vectors; the command line's
  assembly stops at the repeated identifier.
\<close>

theorem build_accepts_repeated_chunk_id:
  "build_metadata one_chunk
      (getFiles [''.txt'', ''.md''] False [] [File ''x.md'' ''two'', File ''x.txt'' ''one'']) []
     = Inr [metadata_item ''x.md'' ''two'' ''x_0'', metadata_item ''x.txt'' ''one'' ''x_0'']
   \<and> map_sum id vectors
        (build toy_embedder (flat_ip 1) one_chunk
           [File ''x.md'' ''two'', File ''x.txt'' ''one''] [''.txt'', ''.md''] False)
     = Inr 2
   \<and> runBuild_metadata one_chunk
        (getFiles [''.txt'', ''.md''] False [] [File ''x.md'' ''two'', File ''x.txt'' ''one''])
        ([], {})
     = Inl (DuplicateChunkId ''x_0'')"
  by code_simp

section \<open>Properties of the indexer's build\<close>

lemma trim_empty_iff: "trim s = [] \<longleftrightarrow> list_all is_space s"
proof (cases "dropWhile is_space s = []")
  case True
  have "trim s = []" unfolding trim_def True by simp
  moreover from True have "list_all is_space s"
    by (simp add: dropWhile_eq_Nil_conv list_all_iff)
  ultimately show ?thesis by simp
next
  case False
  then have "hd (dropWhile is_space s) \<in> set (dropWhile is_space s)"
    and "\<not> is_space (hd (dropWhile is_space s))"
    by (simp_all add: hd_dropWhile)
  then have "\<not> (\<forall>x \<in> set (rev (dropWhile is_space s)). is_space x)" by auto
  then have "trim s \<noteq> []" by (simp add: trim_def dropWhile_eq_Nil_conv)
  moreover from False have "\<not> list_all is_space s"
    by (simp add: dropWhile_eq_Nil_conv list_all_iff)
  ultimately show ?thesis by simp
qed

lemma item_chunk_text: "item_chunk item = Inr s \<Longrightarrow> chunk_text item = s"
  by (auto simp: item_chunk_def read_prop_def chunk_text_def truthy_def
      split: jval.splits if_splits sum.splits)

lemma item_chunk_blank: "item_chunk item = Inr s \<Longrightarrow> trim s = [] \<longleftrightarrow> blank_item item"
  by (simp add: item_chunk_text blank_item_def trim_empty_iff)

lemma map_of_obj_set: "map_of (obj_set obj kv) = (map_of obj)(fst kv \<mapsto> snd kv)"
proof (cases "fst kv \<in> fst ` set obj")
  case False
  then have "map_of obj (fst kv) = None" by (simp add: map_of_eq_None_iff)
  with False show ?thesis
    by (cases kv) (auto simp: obj_set_def map_add_def fun_eq_iff split: option.splits)
next
  case True
  have "map_of (map (\<lambda>p. if fst p = fst kv then (fst p, snd kv) else p) obj) k
      = (if k = fst kv \<and> k \<in> fst ` set obj then Some (snd kv) else map_of obj k)" for k
  proof (induction obj)
    case Nil
    then show ?case by simp
  next
    case (Cons a obj)
    show ?case
    proof (cases "k = fst a")
      case True
      then show ?thesis by (cases a) auto
    next
      case False
      then have "map_of (map (\<lambda>p. if fst p = fst kv then (fst p, snd kv) else p) (a # obj)) k
          = map_of (map (\<lambda>p. if fst p = fst kv then (fst p, snd kv) else p) obj) k"
        by (cases a) auto
      also have "\<dots> = (if k = fst kv \<and> k \<in> fst ` set obj then Some (snd kv)
                         else map_of obj k)"
        by (rule Cons.IH)
      also have "\<dots> = (if k = fst kv \<and> k \<in> fst ` set (a # obj) then Some (snd kv)
                         else map_of (a # obj) k)"
        using False by (cases a) auto
      finally show ?thesis .
    qed
  qed
  with True show ?thesis by (auto simp: obj_set_def fun_eq_iff)
qed

lemma map_of_fold_obj_set:
  "map_of (fold (\<lambda>kv obj. obj_set obj kv) props acc) = map_of acc ++ map_of (rev props)"
proof (induction props arbitrary: acc)
  case Nil
  then show ?case by simp
next
  case (Cons p props)
  have "map_of (fold (\<lambda>kv obj. obj_set obj kv) (p # props) acc)
      = map_of (obj_set acc p) ++ map_of (rev props)"
    by (simp add: Cons.IH)
  also have "\<dots> = (map_of acc)(fst p \<mapsto> snd p) ++ map_of (rev props)"
    by (simp only: map_of_obj_set)
  also have "\<dots> = map_of acc ++ map_of (rev props @ [p])"
    by (cases p) (auto simp: map_add_def fun_eq_iff split: option.splits)
  finally show ?case by simp
qed

lemma obj_get_literal:
  "obj_get (obj_literal props) k =
     (case map_of (rev props) k of None \<Rightarrow> JUndefined | Some v \<Rightarrow> v)"
  by (simp add: obj_get_def obj_literal_def map_of_fold_obj_set)

lemma obj_literal_keys: "fst ` set (obj_literal props) = fst ` set props"
proof -
  have "dom (map_of (obj_literal props)) = dom (map_of (rev props))"
    by (simp add: obj_literal_def map_of_fold_obj_set)
  then show ?thesis by (simp add: dom_map_of_conv_image_fst)
qed

text \<open>The fields of a pushed entry: \<open>doc\<close>, \<open>chunk_id\<close> and \<open>chunk\<close> are the item's and the
  chunk's, since the spread leaves these three keys out; \<open>id\<close> is the position unless the
  item has an own property \<open>id\<close>, which the spread then writes over it.\<close>

lemma make_entry_field:
  assumes "k \<in> set [''doc'', ''chunk_id'', ''chunk'']"
  shows "get_prop (make_entry n item s) k =
           (if k = ''chunk'' then JStr s else get_prop item k)"
proof -
  let ?extras = "obj_literal
      (filter (\<lambda>kv. fst kv \<notin> set [''doc'', ''chunk_id'', ''chunk'']) (entries item))"
  have "k \<notin> fst ` set ?extras"
    using assms unfolding obj_literal_keys by auto
  then have "map_of (rev ?extras) k = None"
    by (simp add: map_of_eq_None_iff)
  with assms show ?thesis
    by (auto simp: make_entry_def get_prop_def obj_get_literal map_add_def)
qed

lemma make_entry_id:
  assumes "\<not> has_own_id item"
  shows "get_prop (make_entry n item s) ''id'' = JNum (int n)"
proof -
  let ?extras = "obj_literal
      (filter (\<lambda>kv. fst kv \<notin> set [''doc'', ''chunk_id'', ''chunk'']) (entries item))"
  have "''id'' \<notin> fst ` set ?extras"
    using assms unfolding obj_literal_keys has_own_id_def by auto
  then have "map_of (rev ?extras) ''id'' = None"
    by (simp add: map_of_eq_None_iff)
  then show ?thesis
    by (simp add: make_entry_def get_prop_def obj_get_literal map_add_def)
qed

lemma chunk_text_make_entry: "chunk_text (make_entry n item s) = s"
  using make_entry_field[of "''chunk''" n item s] by (simp add: chunk_text_def)

lemma make_entry_not_blank: "trim s \<noteq> [] \<Longrightarrow> \<not> blank_item (make_entry n item s)"
  by (simp add: blank_item_def chunk_text_make_entry trim_empty_iff)

text \<open>
  What a run of the loop that returns has done: one vector and one entry for every
  non-blank item, in order, each vector being the normalized embedding of its item's
  chunk text, and one progress call for every non-blank item, with the item's position.
\<close>

lemma build_loop_Cons:
  assumes "build_loop e g t i (item # rest) st = Inr st'"
  shows "(blank_item item \<and> build_loop e g t (i + 1) rest st = Inr st')
       \<or> (\<not> blank_item item
          \<and> (\<exists>v. normalized_embedding e (chunk_text item) = Inr v
                \<and> build_loop e g t (i + 1) rest
                     \<lparr>vectors_added = vectors_added st @ [v],
                      entries_pushed = entries_pushed st
                        @ [make_entry (length (entries_pushed st)) item (chunk_text item)],
                      progress = progress st @ [(i + 1, t)]\<rparr> = Inr st'))"
proof -
  from assms obtain s where s: "item_chunk item = Inr s"
    by (auto split: sum.splits)
  then have ct: "chunk_text item = s" by (rule item_chunk_text)
  show ?thesis
  proof (cases "trim s = []")
    case True
    with s have "blank_item item" by (simp add: item_chunk_blank)
    moreover from assms s True have "build_loop e g t (i + 1) rest st = Inr st'" by simp
    ultimately show ?thesis by simp
  next
    case False
    with s have "\<not> blank_item item" by (simp add: item_chunk_blank)
    moreover from assms s False obtain v where "embed e s = Inr v"
      "build_loop e g t (i + 1) rest
         \<lparr>vectors_added = vectors_added st @ [normalize e v],
          entries_pushed = entries_pushed st
            @ [make_entry (length (entries_pushed st)) item s],
          progress = progress st @ [(i + 1, t)]\<rparr> = Inr st'"
      by (auto split: sum.splits if_splits)
    ultimately show ?thesis using ct by (auto simp: normalized_embedding_def)
  qed
qed

lemma build_loop_entries:
  "build_loop e g t i items st = Inr st' \<Longrightarrow>
     entries_pushed st' = entries_pushed st @ entries_from (length (entries_pushed st)) items"
proof (induction items arbitrary: i st)
  case Nil
  then show ?case by simp
next
  case (Cons item rest)
  from build_loop_Cons[OF Cons.prems] show ?case
  proof (elim disjE conjE exE)
    assume "blank_item item" "build_loop e g t (i + 1) rest st = Inr st'"
    then show ?thesis using Cons.IH by simp
  next
    fix v
    assume "\<not> blank_item item" and "build_loop e g t (i + 1) rest
        \<lparr>vectors_added = vectors_added st @ [v],
         entries_pushed = entries_pushed st
           @ [make_entry (length (entries_pushed st)) item (chunk_text item)],
         progress = progress st @ [(i + 1, t)]\<rparr> = Inr st'"
    then show ?thesis using Cons.IH by fastforce
  qed
qed

lemma build_loop_progress:
  "build_loop e g t i items st = Inr st' \<Longrightarrow>
     progress st' = progress st @ progress_from t i items"
proof (induction items arbitrary: i st)
  case Nil
  then show ?case by simp
next
  case (Cons item rest)
  from build_loop_Cons[OF Cons.prems] show ?case
  proof (elim disjE conjE exE)
    assume "blank_item item" "build_loop e g t (i + 1) rest st = Inr st'"
    then show ?thesis using Cons.IH by simp
  next
    fix v
    assume "\<not> blank_item item" and "build_loop e g t (i + 1) rest
        \<lparr>vectors_added = vectors_added st @ [v],
         entries_pushed = entries_pushed st
           @ [make_entry (length (entries_pushed st)) item (chunk_text item)],
         progress = progress st @ [(i + 1, t)]\<rparr> = Inr st'"
    then show ?thesis using Cons.IH by fastforce
  qed
qed

lemma build_loop_vectors:
  "build_loop e g t i items st = Inr st' \<Longrightarrow>
     \<exists>V. vectors_added st' = vectors_added st @ V
       \<and> map Inr V = map (\<lambda>it. normalized_embedding e (chunk_text it))
                        (filter (\<lambda>it. \<not> blank_item it) items)"
proof (induction items arbitrary: i st)
  case Nil
  then show ?case by simp
next
  case (Cons item rest)
  from build_loop_Cons[OF Cons.prems] show ?case
  proof (elim disjE conjE exE)
    assume "blank_item item" "build_loop e g t (i + 1) rest st = Inr st'"
    then show ?thesis using Cons.IH by simp
  next
    fix v
    assume nb: "\<not> blank_item item" and v: "normalized_embedding e (chunk_text item) = Inr v"
      and "build_loop e g t (i + 1) rest
        \<lparr>vectors_added = vectors_added st @ [v],
         entries_pushed = entries_pushed st
           @ [make_entry (length (entries_pushed st)) item (chunk_text item)],
         progress = progress st @ [(i + 1, t)]\<rparr> = Inr st'"
    from Cons.IH[OF this(3)] obtain V where
      "vectors_added st' = (vectors_added st @ [v]) @ V"
      "map Inr V = map (\<lambda>it. normalized_embedding e (chunk_text it))
                        (filter (\<lambda>it. \<not> blank_item it) rest)"
      by auto
    with nb v have "vectors_added st' = vectors_added st @ (v # V)
       \<and> map Inr (v # V) = map (\<lambda>it. normalized_embedding e (chunk_text it))
                        (filter (\<lambda>it. \<not> blank_item it) (item # rest))"
      by simp
    then show ?thesis by blast
  qed
qed

lemma length_entries_from:
  "length (entries_from n items) = length (filter (\<lambda>it. \<not> blank_item it) items)"
  by (induction items arbitrary: n) auto

lemma length_progress_from:
  "length (progress_from t i items) = length (filter (\<lambda>it. \<not> blank_item it) items)"
  by (induction items arbitrary: i) auto

lemma progress_from_bounds:
  "p \<in> set (progress_from t i items) \<Longrightarrow> i < fst p \<and> fst p \<le> i + length items \<and> snd p = t"
  by (induction items arbitrary: i) (fastforce split: if_splits)+

lemma progress_from_increasing:
  "sorted_wrt (\<lambda>p q. fst p < fst q) (progress_from t i items)"
proof (induction items arbitrary: i)
  case Nil
  then show ?case by simp
next
  case (Cons item rest)
  have "\<forall>q \<in> set (progress_from t (i + 1) rest). i + 1 < fst q"
    using progress_from_bounds[of _ t "i + 1" rest] by blast
  with Cons.IH[of "i + 1"] show ?case by simp
qed

lemma entries_from_field:
  assumes "k \<in> set [''doc'', ''chunk_id'', ''chunk'']"
  shows "map (\<lambda>m. get_prop m k) (entries_from n items)
           = map (\<lambda>it. if k = ''chunk'' then JStr (chunk_text it) else get_prop it k)
               (filter (\<lambda>it. \<not> blank_item it) items)"
  by (induction items arbitrary: n) (simp_all add: make_entry_field[OF assms])

lemma blank_item_trim: "blank_item item \<longleftrightarrow> trim (chunk_text item) = []"
  by (simp add: blank_item_def trim_empty_iff)

lemma entries_from_not_blank: "m \<in> set (entries_from n items) \<Longrightarrow> \<not> blank_item m"
  by (induction items arbitrary: n)
    (auto simp: blank_item_trim chunk_text_make_entry split: if_splits)

lemma entries_from_ids:
  "list_all (\<lambda>it. \<not> has_own_id it) items \<Longrightarrow>
     map (\<lambda>m. get_prop m ''id'') (entries_from n items)
       = map (\<lambda>j. JNum (int j)) [n..<n + length (entries_from n items)]"
proof (induction items arbitrary: n)
  case Nil
  then show ?case by simp
next
  case (Cons item rest)
  show ?case
  proof (cases "blank_item item")
    case True
    with Cons show ?thesis by simp
  next
    case False
    from Cons.prems have "map (\<lambda>m. get_prop m ''id'') (entries_from (n + 1) rest)
       = map (\<lambda>j. JNum (int j)) [n + 1..<n + 1 + length (entries_from (n + 1) rest)]"
      using Cons.IH[of "n + 1"] by simp
    moreover from Cons.prems
    have "get_prop (make_entry n item (chunk_text item)) ''id'' = JNum (int n)"
      by (simp add: make_entry_id)
    ultimately show ?thesis using False
      by (simp add: upt_conv_Cons del: upt_Suc)
  qed
qed

text \<open>A build that returns has run the loop on a non-empty array, from the empty state.\<close>

lemma FaissIndexer_build_Inr:
  assumes "FaissIndexer_build e g (Parsed (JArr items)) = Inr res"
  shows "\<exists>st. build_loop e g (length items) 0 items
              \<lparr>vectors_added = [], entries_pushed = [], progress = []\<rparr> = Inr st
        \<and> res = \<lparr>built = \<lparr>index = Some (vectors_added st), metadata = entries_pushed st\<rparr>,
                  progress_calls = progress st, vectors = length (vectors_added st)\<rparr>"
  using assms
  by (cases items) (auto simp: FaissIndexer_build_def Let_def split: if_splits sum.splits)

text \<open>
  After a build that returns, the metadata has one entry per vector, the vector at each
  ordinal is the normalized embedding of the chunk text of the non-blank item at that
  rank, and the entries carry their positions as \<open>id\<close> when no input item has an own
  property \<open>id\<close>.
\<close>

lemma build_positions:
  assumes "FaissIndexer_build e g (Parsed (JArr items)) = Inr res"
  shows "\<exists>vs. index (built res) = Some vs
       \<and> vectors res = length vs
       \<and> length (metadata (built res)) = length vs
       \<and> map Inr vs = map (\<lambda>it. normalized_embedding e (chunk_text it))
                         (filter (\<lambda>it. \<not> blank_item it) items)
       \<and> (list_all (\<lambda>it. \<not> has_own_id it) items \<longrightarrow>
            map (\<lambda>m. get_prop m ''id'') (metadata (built res))
              = map (\<lambda>j. JNum (int j)) [0..<length vs])"
proof -
  from FaissIndexer_build_Inr[OF assms] obtain st where
    run: "build_loop e g (length items) 0 items
              \<lparr>vectors_added = [], entries_pushed = [], progress = []\<rparr> = Inr st"
    and res: "res = \<lparr>built = \<lparr>index = Some (vectors_added st), metadata = entries_pushed st\<rparr>,
                  progress_calls = progress st, vectors = length (vectors_added st)\<rparr>"
    by blast
  from build_loop_vectors[OF run] have
    v: "map Inr (vectors_added st) = map (\<lambda>it. normalized_embedding e (chunk_text it))
                         (filter (\<lambda>it. \<not> blank_item it) items)"
    by auto
  from build_loop_entries[OF run] have en: "entries_pushed st = entries_from 0 items"
    by simp
  from v have "length (vectors_added st) = length (filter (\<lambda>it. \<not> blank_item it) items)"
    by (metis length_map)
  with en have len: "length (entries_pushed st) = length (vectors_added st)"
    by (simp add: length_entries_from)
  have "list_all (\<lambda>it. \<not> has_own_id it) items \<longrightarrow>
            map (\<lambda>m. get_prop m ''id'') (entries_pushed st)
              = map (\<lambda>j. JNum (int j)) [0..<length (vectors_added st)]"
    using entries_from_ids[of items 0] en len by simp
  with v len res show ?thesis by simp
qed

text \<open>
  When the health check passes, the metadata file holds a non-empty array, every item's
  \<open>chunk\<close> can be read and trimmed, and every non-blank chunk text is embedded to a vector
  that the engine takes, the build returns.
\<close>

lemma build_loop_returns:
  assumes "\<forall>it \<in> set items. \<exists>s. item_chunk it = Inr s"
    and "\<forall>it \<in> set items. \<not> blank_item it \<longrightarrow>
           (\<exists>v. embed e (chunk_text it) = Inr v \<and> accepts g (normalize e v))"
  shows "\<exists>st'. build_loop e g t i items st = Inr st'"
  using assms
proof (induction items arbitrary: i st)
  case Nil
  then show ?case by simp
next
  case (Cons item rest)
  from Cons.prems(1) obtain s where s: "item_chunk item = Inr s" by auto
  then have ct: "chunk_text item = s" by (rule item_chunk_text)
  have rest: "\<exists>st'. build_loop e g t (i + 1) rest st1 = Inr st'" for st1
    using Cons.IH[of "i + 1" st1] Cons.prems by simp
  show ?case
  proof (cases "trim s = []")
    case True
    with s rest[of st] show ?thesis by simp
  next
    case False
    with s have "\<not> blank_item item" by (simp add: item_chunk_blank)
    with Cons.prems(2) ct obtain v where "embed e s = Inr v" "accepts g (normalize e v)"
      by auto
    with s False rest show ?thesis by simp
  qed
qed

lemma FaissIndexer_build_returns:
  assumes "ok (healthCheck (model e) (tags e))" and "items \<noteq> []"
    and "\<forall>it \<in> set items. \<exists>s. item_chunk it = Inr s"
    and "\<forall>it \<in> set items. \<not> blank_item it \<longrightarrow>
           (\<exists>v. embed e (chunk_text it) = Inr v \<and> accepts g (normalize e v))"
  shows "\<exists>res. FaissIndexer_build e g (Parsed (JArr items)) = Inr res"
proof -
  from assms(2) obtain item rest where items: "items = item # rest" by (cases items) auto
  from build_loop_returns[OF assms(3) assms(4), of "length items" 0
      "\<lparr>vectors_added = [], entries_pushed = [], progress = []\<rparr>"]
  obtain st where "build_loop e g (length items) 0 items
      \<lparr>vectors_added = [], entries_pushed = [], progress = []\<rparr> = Inr st" by blast
  with assms(1) items show ?thesis
    by (simp add: FaissIndexer_build_def Let_def)
qed

text \<open>
  Claim C1 (as stated: after every successful build the metadata entry at position \<open>i\<close>
  has \<open>id\<close> equal to \<open>i\<close>). The metadata file holds one item that has a property \<open>id\<close> of
  its own, with value 5. The build returns with one vector in the index and one entry,
  at position 0, whose \<open>id\<close> is 5: the spread of the item's extra fields, which leaves
  out \<open>doc\<close>, \<open>chunk_id\<close> and \<open>chunk\<close> but not \<open>id\<close>, has written over the position.
\<close>

theorem build_entry_id_overwritten:
  "map_sum id (\<lambda>res. (vectors res, map (\<lambda>m. get_prop m ''id'') (metadata (built res))))
     (FaissIndexer_build toy_embedder (flat_ip 1)
        (Parsed (JArr [JObj [(''id'', JNum 5), (''doc'', JStr ''a.txt''),
                             (''chunk'', JStr ''hello''), (''chunk_id'', JStr ''a_0'')]])))
   = Inr (1, [JNum 5])"
  by code_simp

text \<open>
  Claim C2. For a metadata input of \<open>N\<close> items of which \<open>M\<close> are blank: when the health
  check passes, the array is not empty, every item's \<open>chunk\<close> can be read and every
  non-blank chunk text is embedded to a vector that the engine takes, the build returns;
  and every build that returns reports \<open>N - M\<close> vectors, its index holds \<open>N - M\<close>
  vectors, and the metadata that is written out holds \<open>N - M\<close> entries: the non-blank
  items in their order, with their \<open>doc\<close>, \<open>chunk_id\<close> and chunk text. No entry is blank.
\<close>

theorem build_skips_blank_items:
  "(ok (healthCheck (model e) (tags e)) \<and> items \<noteq> []
      \<and> (\<forall>it \<in> set items. \<exists>s. item_chunk it = Inr s)
      \<and> (\<forall>it \<in> set items. \<not> blank_item it \<longrightarrow>
            (\<exists>v. embed e (chunk_text it) = Inr v \<and> accepts g (normalize e v)))
     \<longrightarrow> (\<exists>res. FaissIndexer_build e g (Parsed (JArr items)) = Inr res))
   \<and> (\<forall>res. FaissIndexer_build e g (Parsed (JArr items)) = Inr res \<longrightarrow>
         vectors res = length items - length (filter blank_item items)
       \<and> map_option length (index (built res))
           = Some (length items - length (filter blank_item items))
       \<and> length (metadata (built res)) = length items - length (filter blank_item items)
       \<and> map (\<lambda>m. get_prop m ''chunk'') (metadata (built res))
           = map (\<lambda>it. JStr (chunk_text it)) (filter (\<lambda>it. \<not> blank_item it) items)
       \<and> map (\<lambda>m. get_prop m ''doc'') (metadata (built res))
           = map (\<lambda>it. get_prop it ''doc'') (filter (\<lambda>it. \<not> blank_item it) items)
       \<and> map (\<lambda>m. get_prop m ''chunk_id'') (metadata (built res))
           = map (\<lambda>it. get_prop it ''chunk_id'') (filter (\<lambda>it. \<not> blank_item it) items)
       \<and> list_all (\<lambda>m. \<not> blank_item m) (metadata (built res)))"
proof (intro conjI allI impI)
  assume "ok (healthCheck (model e) (tags e)) \<and> items \<noteq> []
      \<and> (\<forall>it \<in> set items. \<exists>s. item_chunk it = Inr s)
      \<and> (\<forall>it \<in> set items. \<not> blank_item it \<longrightarrow>
            (\<exists>v. embed e (chunk_text it) = Inr v \<and> accepts g (normalize e v)))"
  then show "\<exists>res. FaissIndexer_build e g (Parsed (JArr items)) = Inr res"
    using FaissIndexer_build_returns[of e items g] by blast
next
  fix res
  assume built: "FaissIndexer_build e g (Parsed (JArr items)) = Inr res"
  from FaissIndexer_build_Inr[OF built] obtain st where
    run: "build_loop e g (length items) 0 items
              \<lparr>vectors_added = [], entries_pushed = [], progress = []\<rparr> = Inr st"
    and res: "res = \<lparr>built = \<lparr>index = Some (vectors_added st), metadata = entries_pushed st\<rparr>,
                  progress_calls = progress st, vectors = length (vectors_added st)\<rparr>"
    by blast
  have count: "length (filter (\<lambda>it. \<not> blank_item it) items)
      = length items - length (filter blank_item items)"
    using sum_length_filter_compl[of blank_item items] by simp
  from build_loop_vectors[OF run] have
    "map Inr (vectors_added st) = map (\<lambda>it. normalized_embedding e (chunk_text it))
                         (filter (\<lambda>it. \<not> blank_item it) items)"
    by auto
  then have "length (vectors_added st) = length (filter (\<lambda>it. \<not> blank_item it) items)"
    by (metis length_map)
  with count have v: "length (vectors_added st) = length items - length (filter blank_item items)"
    by simp
  from build_loop_entries[OF run] have en: "entries_pushed st = entries_from 0 items"
    by simp
  have l: "length (entries_pushed st) = length items - length (filter blank_item items)"
    using en count by (simp add: length_entries_from)
  have c: "map (\<lambda>m. get_prop m ''chunk'') (entries_pushed st)
           = map (\<lambda>it. JStr (chunk_text it)) (filter (\<lambda>it. \<not> blank_item it) items)"
    unfolding en using entries_from_field[of "''chunk''" 0 items] by simp
  have d: "map (\<lambda>m. get_prop m ''doc'') (entries_pushed st)
           = map (\<lambda>it. get_prop it ''doc'') (filter (\<lambda>it. \<not> blank_item it) items)"
    unfolding en using entries_from_field[of "''doc''" 0 items] by simp
  have i: "map (\<lambda>m. get_prop m ''chunk_id'') (entries_pushed st)
           = map (\<lambda>it. get_prop it ''chunk_id'') (filter (\<lambda>it. \<not> blank_item it) items)"
    unfolding en using entries_from_field[of "''chunk_id''" 0 items] by simp
  have n: "list_all (\<lambda>m. \<not> blank_item m) (entries_pushed st)"
    unfolding en list_all_iff using entries_from_not_blank by blast
  from v l c d i n
  show "vectors res = length items - length (filter blank_item items)"
    and "map_option length (index (built res))
           = Some (length items - length (filter blank_item items))"
    and "length (metadata (built res)) = length items - length (filter blank_item items)"
    and "map (\<lambda>m. get_prop m ''chunk'') (metadata (built res))
           = map (\<lambda>it. JStr (chunk_text it)) (filter (\<lambda>it. \<not> blank_item it) items)"
    and "map (\<lambda>m. get_prop m ''doc'') (metadata (built res))
           = map (\<lambda>it. get_prop it ''doc'') (filter (\<lambda>it. \<not> blank_item it) items)"
    and "map (\<lambda>m. get_prop m ''chunk_id'') (metadata (built res))
           = map (\<lambda>it. get_prop it ''chunk_id'') (filter (\<lambda>it. \<not> blank_item it) items)"
    and "list_all (\<lambda>m. \<not> blank_item m) (metadata (built res))"
    unfolding res by simp_all
qed

theorem build_skips_blank_items_witness:
  "FaissIndexer_build toy_embedder (flat_ip 1)
      (Parsed (JArr [metadata_item ''a.txt'' ''Valid text'' ''a_0'',
                     metadata_item ''b.txt'' ''   '' ''b_0'',
                     metadata_item ''c.txt'' [] ''c_0'']))
     = Inr \<lparr>built = \<lparr>index = Some [[10]],
                      metadata = [JObj [(''id'', JNum 0), (''doc'', JStr ''a.txt''),
                                        (''chunk_id'', JStr ''a_0''),
                                        (''chunk'', JStr ''Valid text'')]]\<rparr>,
            progress_calls = [(1, 3)], vectors = 1\<rparr>
   \<and> length (filter blank_item [metadata_item ''a.txt'' ''Valid text'' ''a_0'',
                     metadata_item ''b.txt'' ''   '' ''b_0'',
                     metadata_item ''c.txt'' [] ''c_0'']) = 2
   \<and> (1::nat) = 3 - 2"
proof -
  let ?items = "[metadata_item ''a.txt'' ''Valid text'' ''a_0'',
                 metadata_item ''b.txt'' ''   '' ''b_0'',
                 metadata_item ''c.txt'' [] ''c_0'']"
  let ?res = "\<lparr>built = \<lparr>index = Some [[10::int]],
                      metadata = [JObj [(''id'', JNum 0), (''doc'', JStr ''a.txt''),
                                        (''chunk_id'', JStr ''a_0''),
                                        (''chunk'', JStr ''Valid text'')]]\<rparr>,
            progress_calls = [(1, 3)], vectors = 1\<rparr>"
  have b: "FaissIndexer_build toy_embedder (flat_ip 1) (Parsed (JArr ?items)) = Inr ?res"
    by code_simp
  from build_skips_blank_items [of toy_embedder ?items "flat_ip 1"] b
  have "vectors ?res = length ?items - length (filter blank_item ?items)" by blast
  then have "length (filter blank_item ?items) = 2"
    using sum_length_filter_compl[of blank_item ?items] by simp
  with b show ?thesis by simp
qed

text \<open>
  The progress calls of a build that returns: one for every non-blank item, carrying the
  item's position in the input (counted from 1) and the input length; the positions
  increase.
\<close>

lemma build_progress_calls:
  assumes "FaissIndexer_build e g (Parsed (JArr items)) = Inr res"
  shows "progress_calls res = progress_from (length items) 0 items"
    and "length (progress_calls res) = length items - length (filter blank_item items)"
    and "sorted_wrt (\<lambda>p q. fst p < fst q) (progress_calls res)"
proof -
  from FaissIndexer_build_Inr[OF assms] obtain st where
    run: "build_loop e g (length items) 0 items
              \<lparr>vectors_added = [], entries_pushed = [], progress = []\<rparr> = Inr st"
    and res: "res = \<lparr>built = \<lparr>index = Some (vectors_added st), metadata = entries_pushed st\<rparr>,
                  progress_calls = progress st, vectors = length (vectors_added st)\<rparr>"
    by blast
  from build_loop_progress[OF run] res
  show p: "progress_calls res = progress_from (length items) 0 items" by simp
  show "length (progress_calls res) = length items - length (filter blank_item items)"
    unfolding p length_progress_from
    using sum_length_filter_compl[of blank_item items] by simp
  show "sorted_wrt (\<lambda>p q. fst p < fst q) (progress_calls res)"
    unfolding p by (rule progress_from_increasing)
qed

text \<open>
  Claim C7 (as stated: the progress callback is invoked once per input item, skipped
  items included, and the completed count reaches the input length). The metadata file
  holds a non-blank item followed by a blank one. The build returns after a single call,
  \<open>onProgress(1, 2)\<close>: the blank item is skipped by a \<open>continue\<close> that also skips the call,
  and the count never reaches 2.
\<close>

theorem build_progress_skips_blank:
  "map_sum id progress_calls
     (FaissIndexer_build toy_embedder (flat_ip 1)
        (Parsed (JArr [metadata_item ''a.txt'' ''Valid text'' ''a_0'',
                       metadata_item ''b.txt'' ''   '' ''b_0''])))
   = Inr [(1, 2)]"
  by code_simp

section \<open>Hidden files: the change cache and the index builder\<close>

text \<open>
  The two enumerations against the directory tree. The cache's enumeration returns
  exactly the files that the tree holds at a path with no name that begins with a dot,
  whose name passes the extension test, directly in the directory or, under
  \<open>recursive\<close>, at any depth. The builder's enumeration returns every file that the tree
  holds whose extension is in the list, hidden or not.
\<close>

lemma entry_has_file_Nil [simp]: "entry_has_file entry [] c = False"
  by (cases entry) simp_all

lemma has_file_Nil [simp]: "has_file dir [] c = False"
  by (induction dir) simp_all

lemma hidden_Nil [simp]: "hidden [] = False"
  by (simp add: hidden_def)

lemma hidden_Cons [simp]: "hidden (n # q) = (starts_with_dot n \<or> hidden q)"
  by (simp add: hidden_def)











lemma metadata_item_doc [simp]: "get_prop (metadata_item rel c cid) ''doc'' = JStr rel"
  by (simp add: metadata_item_def get_prop_def obj_get_def)

lemma metadata_item_chunk_text [simp]: "chunk_text (metadata_item rel c cid) = c"
  by (simp add: chunk_text_def metadata_item_def get_prop_def obj_get_def)

lemma metadata_item_blank [simp]:
  "blank_item (metadata_item rel c cid) \<longleftrightarrow> list_all is_space c"
  by (simp add: blank_item_def)
















section \<open>Properties of search and of the health check\<close>

lemma get_prop_fallback:
  assumes "k \<noteq> ''id''"
  shows "get_prop (if truthy m then m else JObj [(''id'', JNum idx)]) k = get_prop m k"
  using assms by (cases m) (auto simp: truthy_def get_prop_def obj_get_def)

lemma to_hit_fields:
  "hit_id (to_hit md r) = fst r" "score (to_hit md r) = snd r"
  "doc (to_hit md r) = get_prop (element md (fst r)) ''doc''"
  "chunk_id (to_hit md r) = get_prop (element md (fst r)) ''chunk_id''"
  "chunk (to_hit md r) = get_prop (element md (fst r)) ''chunk''"
  by (simp_all add: to_hit_def Let_def get_prop_fallback)

text \<open>
  The exhaustive engine returns exactly \<open>k\<close> neighbours when the index holds at least
  \<open>k\<close> vectors, each labelled by an ordinal of the index, highest score first.
\<close>

lemma flat_nearest_reply:
  assumes "k \<le> length vs"
  shows "length (flat_nearest vs q k) = k"
    and "\<forall>r \<in> set (flat_nearest vs q k). 0 \<le> fst r \<and> fst r < int (length vs)"
    and "sorted_wrt (\<lambda>a b. snd b \<le> snd a) (flat_nearest vs q k)"
proof -
  let ?all = "zip (map int [0..<length vs]) (map (dot q) vs)"
  let ?sorted = "sort_key (\<lambda>r. - snd r) ?all"
  show "length (flat_nearest vs q k) = k"
    using assms by (simp add: flat_nearest_def)
  have "set (flat_nearest vs q k) \<subseteq> set ?all"
    unfolding flat_nearest_def using set_take_subset[of k ?sorted] by simp
  moreover have "\<forall>r \<in> set ?all. 0 \<le> fst r \<and> fst r < int (length vs)"
    by (auto dest!: set_zip_leftD)
  ultimately show "\<forall>r \<in> set (flat_nearest vs q k). 0 \<le> fst r \<and> fst r < int (length vs)"
    by blast
  have "sorted (map (\<lambda>r. - snd r) ?sorted)" by (rule sorted_sort_key)
  then have "sorted_wrt (\<lambda>a b. snd b \<le> snd a) ?sorted"
    by (simp add: sorted_map)
  then show "sorted_wrt (\<lambda>a b. snd b \<le> snd a) (flat_nearest vs q k)"
    unfolding flat_nearest_def by (rule sorted_wrt_take)
qed

text \<open>A loaded indexer holds the vectors of the index file; with a metadata file given,
  it holds that file's entries.\<close>

lemma FaissIndexer_load_index:
  "FaissIndexer_load ix (Some vs) metadataFile = Inr ix' \<Longrightarrow>
     index ix' = Some vs
     \<and> metadata ix' = (case metadataFile of None \<Rightarrow> metadata ix | Some md \<Rightarrow> md)"
  by (auto simp: FaissIndexer_load_def)

text \<open>
  Claim C3. On an indexer that holds at least one vector, with an engine that answers
  the call as an exhaustive index does (exactly \<open>min k n\<close> neighbours, each labelled by
  an ordinal of the index, best score first) and a query that the embedder embeds,
  \<open>search\<close> returns exactly \<open>min k n\<close> results, best score first, each carrying the
  \<open>doc\<close>, \<open>chunk_id\<close> and \<open>chunk\<close> of the metadata entry at its ordinal; where the metadata
  has one entry per vector, that entry is the element of the metadata sequence at the
  ordinal. (\<open>better a b\<close> says that score \<open>a\<close> may come before score \<open>b\<close>: greater or
  equal for the inner product, less or equal for the Euclidean distance. For an index
  loaded without its metadata, \<open>element\<close> is \<open>undefined\<close> and the three fields are too.)
\<close>

theorem search_returns_nearest:
  assumes ix: "index ix = Some vs" and nonempty: "vs \<noteq> []"
    and query: "embed e q = Inr qv"
    and count: "length (nearest g vs (normalize e qv) (min k (length vs))) = min k (length vs)"
    and labels: "\<forall>r \<in> set (nearest g vs (normalize e qv) (min k (length vs))).
                   0 \<le> fst r \<and> fst r < int (length vs)"
    and order: "sorted_wrt (\<lambda>a b. better (snd a) (snd b))
                  (nearest g vs (normalize e qv) (min k (length vs)))"
  shows "\<exists>hits. FaissIndexer_search e g ix q k = Inr hits
       \<and> length hits = min k (length vs)
       \<and> sorted_wrt (\<lambda>a b. better (score a) (score b)) hits
       \<and> (\<forall>h \<in> set hits.
            0 \<le> hit_id h \<and> hit_id h < int (length vs)
          \<and> doc h = get_prop (element (metadata ix) (hit_id h)) ''doc''
          \<and> chunk_id h = get_prop (element (metadata ix) (hit_id h)) ''chunk_id''
          \<and> chunk h = get_prop (element (metadata ix) (hit_id h)) ''chunk''
          \<and> (length (metadata ix) = length vs \<longrightarrow>
               element (metadata ix) (hit_id h) = metadata ix ! nat (hit_id h)))"
proof -
  let ?reply = "nearest g vs (normalize e qv) (min k (length vs))"
  let ?hits = "map (to_hit (metadata ix)) ?reply"
  from labels have keep: "filter (\<lambda>r. fst r \<noteq> - 1) ?reply = ?reply"
    by (auto simp: filter_id_conv)
  from ix nonempty query keep
  have run: "FaissIndexer_search e g ix q k = Inr ?hits"
    by (simp add: FaissIndexer_search_def)
  have len: "length ?hits = min k (length vs)" using count by simp
  have ord: "sorted_wrt (\<lambda>a b. better (score a) (score b)) ?hits"
    using order by (simp add: sorted_wrt_map to_hit_fields)
  have maps: "\<forall>h \<in> set ?hits.
            0 \<le> hit_id h \<and> hit_id h < int (length vs)
          \<and> doc h = get_prop (element (metadata ix) (hit_id h)) ''doc''
          \<and> chunk_id h = get_prop (element (metadata ix) (hit_id h)) ''chunk_id''
          \<and> chunk h = get_prop (element (metadata ix) (hit_id h)) ''chunk''
          \<and> (length (metadata ix) = length vs \<longrightarrow>
               element (metadata ix) (hit_id h) = metadata ix ! nat (hit_id h))"
  proof
    fix h
    assume "h \<in> set ?hits"
    then obtain r where r: "r \<in> set ?reply" and h: "h = to_hit (metadata ix) r" by auto
    from r labels have in_range: "0 \<le> fst r" "fst r < int (length vs)"
      by auto
    then have "nat (fst r) < length vs" by linarith
    with in_range have "length (metadata ix) = length vs \<longrightarrow>
        element (metadata ix) (fst r) = metadata ix ! nat (fst r)"
      by (simp add: element_def)
    with in_range h show "0 \<le> hit_id h \<and> hit_id h < int (length vs)
          \<and> doc h = get_prop (element (metadata ix) (hit_id h)) ''doc''
          \<and> chunk_id h = get_prop (element (metadata ix) (hit_id h)) ''chunk_id''
          \<and> chunk h = get_prop (element (metadata ix) (hit_id h)) ''chunk''
          \<and> (length (metadata ix) = length vs \<longrightarrow>
               element (metadata ix) (hit_id h) = metadata ix ! nat (hit_id h))"
      by (simp add: to_hit_fields)
  qed
  from run len ord maps show ?thesis by blast
qed

theorem search_returns_nearest_witness:
  "FaissIndexer_search toy_embedder (flat_ip 1)
      \<lparr>index = Some [[1], [5], [3]],
       metadata = [metadata_item ''a.txt'' ''a'' ''a_0'', metadata_item ''b.txt'' ''bbbbb'' ''b_0'',
                   metadata_item ''c.txt'' ''ccc'' ''c_0'']\<rparr> ''qq'' 2
     = Inr [\<lparr>hit_id = 1, score = 10, doc = JStr ''b.txt'', chunk_id = JStr ''b_0'',
              chunk = JStr ''bbbbb''\<rparr>,
            \<lparr>hit_id = 2, score = 6, doc = JStr ''c.txt'', chunk_id = JStr ''c_0'',
              chunk = JStr ''ccc''\<rparr>]
   \<and> length [\<lparr>hit_id = 1, score = 10::int, doc = JStr ''b.txt'', chunk_id = JStr ''b_0'',
              chunk = JStr ''bbbbb''\<rparr>,
            \<lparr>hit_id = 2, score = 6, doc = JStr ''c.txt'', chunk_id = JStr ''c_0'',
              chunk = JStr ''ccc''\<rparr>] = min 2 (length [[1::int], [5], [3]])"
proof -
  let ?vs = "[[1::int], [5], [3]]"
  let ?ix = "\<lparr>index = Some ?vs,
       metadata = [metadata_item ''a.txt'' ''a'' ''a_0'', metadata_item ''b.txt'' ''bbbbb'' ''b_0'',
                   metadata_item ''c.txt'' ''ccc'' ''c_0'']\<rparr>"
  let ?hits = "[\<lparr>hit_id = 1, score = 10::int, doc = JStr ''b.txt'', chunk_id = JStr ''b_0'',
              chunk = JStr ''bbbbb''\<rparr>,
            \<lparr>hit_id = 2, score = 6, doc = JStr ''c.txt'', chunk_id = JStr ''c_0'',
              chunk = JStr ''ccc''\<rparr>]"
  have run: "FaissIndexer_search toy_embedder (flat_ip 1) ?ix ''qq'' 2 = Inr ?hits"
    by code_simp
  have h1: "index ?ix = Some ?vs" by simp
  have h2: "?vs \<noteq> []" by simp
  have h3: "embed toy_embedder ''qq'' = Inr [2]" by (simp add: toy_embedder_def)
  have n: "normalize toy_embedder [2] = [2]" by (simp add: toy_embedder_def)
  have g: "nearest (flat_ip 1) = flat_nearest" by (simp add: flat_ip_def)
  have k: "min 2 (length ?vs) \<le> length ?vs" by simp
  have h4: "length (nearest (flat_ip 1) ?vs (normalize toy_embedder [2]) (min 2 (length ?vs)))
      = min 2 (length ?vs)"
    unfolding g n by (rule flat_nearest_reply(1)[OF k])
  have h5: "\<forall>r \<in> set (nearest (flat_ip 1) ?vs (normalize toy_embedder [2]) (min 2 (length ?vs))).
      0 \<le> fst r \<and> fst r < int (length ?vs)"
    unfolding g n by (rule flat_nearest_reply(2)[OF k])
  have h6: "sorted_wrt (\<lambda>a b. snd b \<le> snd a)
      (nearest (flat_ip 1) ?vs (normalize toy_embedder [2]) (min 2 (length ?vs)))"
    unfolding g n by (rule flat_nearest_reply(3)[OF k])
  from search_returns_nearest [of ?ix ?vs toy_embedder "''qq''" "[2]" "flat_ip 1" 2
      "\<lambda>a b. b \<le> a", OF h1 h2 h3 h4 h5 h6]
  obtain hits where "FaissIndexer_search toy_embedder (flat_ip 1) ?ix ''qq'' 2 = Inr hits"
    "length hits = min 2 (length ?vs)" by blast
  with run show ?thesis by simp
qed











end
